theory Spec2Isabelle
  imports Complex_Main
begin

section \<open>JavaScript values used by the poster system\<close>

text \<open>
  Timestamps and counters are JavaScript numbers holding integers (milliseconds since the
  epoch, request counts); they are modelled as \<open>int\<close>. An object property that may be
  missing is an \<open>option\<close>. \<open>js_or x d\<close> is the idiom \<open>x || d\<close> on such a property:
  a missing value and the number 0 are both falsy.
\<close>

definition js_or :: "int option \<Rightarrow> int \<Rightarrow> int" where
  "js_or x d = (case x of None \<Rightarrow> d | Some v \<Rightarrow> if v = 0 then d else v)"

text \<open>
  A JavaScript \<open>Map\<close> iterates in insertion order. It is an association list with
  distinct keys: \<open>set\<close> on a present key replaces the value in place, \<open>set\<close> on a new
  key appends, \<open>delete\<close> removes the pair.
\<close>

type_synonym ('k, 'v) jsmap = "('k \<times> 'v) list"

definition map_has :: "'k \<Rightarrow> ('k, 'v) jsmap \<Rightarrow> bool" where
  "map_has k m = (k \<in> fst ` set m)"

definition map_delete :: "'k \<Rightarrow> ('k, 'v) jsmap \<Rightarrow> ('k, 'v) jsmap" where
  "map_delete k m = filter (\<lambda>p. fst p \<noteq> k) m"

definition map_set :: "'k \<Rightarrow> 'v \<Rightarrow> ('k, 'v) jsmap \<Rightarrow> ('k, 'v) jsmap" where
  "map_set k v m =
     (if map_has k m then map (\<lambda>p. if fst p = k then (k, v) else p) m else m @ [(k, v)])"

definition map_keys :: "('k, 'v) jsmap \<Rightarrow> 'k list" where
  "map_keys m = map fst m"

text \<open>\<open>m.keys().next().value\<close>: the first key in insertion order, \<open>undefined\<close> on an empty map.\<close>

definition first_key :: "('k, 'v) jsmap \<Rightarrow> 'k option" where
  "first_key m = (case m of [] \<Rightarrow> None | p # _ \<Rightarrow> Some (fst p))"

text \<open>\<open>m.delete(k)\<close> where \<open>k\<close> may be \<open>undefined\<close>: no string key equals \<open>undefined\<close>.\<close>

definition map_delete_opt :: "'k option \<Rightarrow> ('k, 'v) jsmap \<Rightarrow> ('k, 'v) jsmap" where
  "map_delete_opt ko m = (case ko of None \<Rightarrow> m | Some k \<Rightarrow> map_delete k m)"

section \<open>CacheService\<close>

type_synonym key = string

record PosterCacheEntry =
  animeId :: string
  posterUrl :: string
  source :: string
  timestamp :: int
  ttl :: int
  hits :: int

text \<open>The object handed to \<open>set\<close>: \<open>timestamp\<close>, \<open>ttl\<close> and \<open>hits\<close> may be missing.\<close>

record entry_arg =
  arg_animeId :: string
  arg_posterUrl :: string
  arg_source :: string
  arg_timestamp :: "int option"
  arg_ttl :: "int option"
  arg_hits :: "int option"

record cache_stats =
  stat_hits :: int
  stat_misses :: int
  stat_sets :: int
  stat_evictions :: int
  stat_size :: int

record cache_config =
  cfg_maxSize :: "int option"
  cfg_ttl :: "int option"
  cfg_persistToDisk :: bool
  cfg_cacheFilePath :: "string option"

text \<open>
  The handle in \<open>_saveTimeout\<close>: \<open>null\<close>, a timer that will fire at the given instant, or
  the stale handle of a timer that has fired (truthy, and \<open>clearTimeout\<close> on it does nothing).
\<close>

datatype save_timer = NoTimer | Pending int | Fired

record CacheService =
  maxSize :: int
  defaultTTL :: int
  persistToDisk :: bool
  cacheFilePath :: string
  cache :: "(key, PosterCacheEntry) jsmap"
  stats :: cache_stats
  cache_isInitialized :: bool
  saveTimeout :: save_timer

text \<open>
  The constructor.
\<close>

definition CacheService_new :: "cache_config \<Rightarrow> CacheService" where
  "CacheService_new config =
     \<lparr> maxSize = js_or (cfg_maxSize config) 1000,
       defaultTTL = js_or (cfg_ttl config) (24 * 60 * 60 * 1000),
       persistToDisk = cfg_persistToDisk config,
       cacheFilePath = (case cfg_cacheFilePath config of
                          None \<Rightarrow> ''../../cache/poster-cache.json'' | Some p \<Rightarrow> p),
       cache = [],
       stats = \<lparr> stat_hits = 0, stat_misses = 0, stat_sets = 0, stat_evictions = 0,
                 stat_size = 0 \<rparr>,
       cache_isInitialized = False,
       saveTimeout = NoTimer \<rparr>"

text \<open>\<open>_isExpired(entry, now)\<close>: \<open>(entry.timestamp + entry.ttl) < now\<close>.\<close>

definition isExpired :: "PosterCacheEntry \<Rightarrow> int \<Rightarrow> bool" where
  "isExpired entry now = (timestamp entry + ttl entry < now)"

text \<open>
  \<open>_saveToDisk()\<close> cancels a pending debounce timer and arms a new one, 1000 ms ahead.
  The write itself happens when the timer fires (\<open>saveTimer_fire\<close> below).
\<close>

definition saveToDisk :: "int \<Rightarrow> CacheService \<Rightarrow> CacheService" where
  "saveToDisk now c = c\<lparr>saveTimeout := Pending (now + 1000)\<rparr>"

text \<open>\<open>get(key)\<close> at clock reading \<open>now\<close>: the returned entry (or \<open>null\<close>) and the new state.\<close>

definition get :: "int \<Rightarrow> key \<Rightarrow> CacheService \<Rightarrow> PosterCacheEntry option \<times> CacheService" where
  "get now k c =
     (case map_of (cache c) k of
        None \<Rightarrow> (None, c\<lparr>stats := (stats c)\<lparr>stat_misses := stat_misses (stats c) + 1\<rparr>\<rparr>)
      | Some entry \<Rightarrow>
          if isExpired entry now then
            (let cache' = map_delete k (cache c) in
             (None, c\<lparr>cache := cache',
                      stats := (stats c)\<lparr>stat_misses := stat_misses (stats c) + 1,
                                         stat_size := int (length cache')\<rparr>\<rparr>))
          else
            (let updatedEntry = entry\<lparr>hits := hits entry + 1\<rparr> in
             (Some updatedEntry,
              c\<lparr>cache := map_set k updatedEntry (map_delete k (cache c)),
                stats := (stats c)\<lparr>stat_hits := stat_hits (stats c) + 1\<rparr>\<rparr>)))"

text \<open>\<open>set(key, entry)\<close> at clock reading \<open>now\<close>.\<close>

definition evict_if_full :: "key \<Rightarrow> CacheService \<Rightarrow> CacheService" where
  "evict_if_full k c =
     (if int (length (cache c)) \<ge> maxSize c \<and> \<not> map_has k (cache c) then
        c\<lparr>cache := map_delete_opt (first_key (cache c)) (cache c),
          stats := (stats c)\<lparr>stat_evictions := stat_evictions (stats c) + 1\<rparr>\<rparr>
      else c)"

definition stored_entry :: "int \<Rightarrow> int \<Rightarrow> entry_arg \<Rightarrow> PosterCacheEntry" where
  "stored_entry now dflt e =
     \<lparr> animeId = arg_animeId e, posterUrl = arg_posterUrl e, source = arg_source e,
       timestamp = js_or (arg_timestamp e) now,
       ttl = js_or (arg_ttl e) dflt,
       hits = js_or (arg_hits e) 0 \<rparr>"

definition set_entry :: "int \<Rightarrow> key \<Rightarrow> entry_arg \<Rightarrow> CacheService \<Rightarrow> CacheService" where
  "set_entry now k e c =
     (let c1 = evict_if_full k c;
          c2 = (if map_has k (cache c1) then c1\<lparr>cache := map_delete k (cache c1)\<rparr> else c1);
          cache3 = map_set k (stored_entry now (defaultTTL c2) e) (cache c2);
          c3 = c2\<lparr>cache := cache3,
                  stats := (stats c2)\<lparr>stat_sets := stat_sets (stats c2) + 1,
                                      stat_size := int (length cache3)\<rparr>\<rparr>
      in if persistToDisk c3 then saveToDisk now c3 else c3)"

section \<open>A small cache used as a running example\<close>

text \<open>
  The manager stores entries with an explicit \<open>timestamp\<close>, the configured \<open>ttl\<close> and
  \<open>hits: 1\<close>; \<open>demo_arg\<close> builds such an argument. The example cache has room for two
  entries that live 100 ms, and persists to disk.
\<close>

definition demo_config :: cache_config where
  "demo_config = \<lparr> cfg_maxSize = Some 2, cfg_ttl = Some 100, cfg_persistToDisk = True,
                    cfg_cacheFilePath = Some ''cache/poster-cache.json'' \<rparr>"

definition demo_arg :: "string \<Rightarrow> string \<Rightarrow> int \<Rightarrow> entry_arg" where
  "demo_arg aid url t = \<lparr> arg_animeId = aid, arg_posterUrl = url, arg_source = ''kitsu'',
       arg_timestamp = Some t, arg_ttl = Some 100, arg_hits = Some 1 \<rparr>"

definition demo_cache :: CacheService where
  "demo_cache = set_entry 1000 ''1:X'' (demo_arg ''1'' ''u1'' 1000) (CacheService_new demo_config)"

definition demo_entry :: PosterCacheEntry where
  "demo_entry = \<lparr> animeId = ''1'', posterUrl = ''u1'', source = ''kitsu'', timestamp = 1000, ttl = 100, hits = 1\<rparr>"

section \<open>Cache expiry\<close>

lemma map_of_map_delete_same: "map_of (map_delete k m) k = None"
  by (induction m) (auto simp: map_delete_def)

lemma map_of_replace:
  "k \<in> fst ` set m \<Longrightarrow> map_of (map (\<lambda>p. if fst p = k then (k, v) else p) m) k = Some v"
  by (induction m) auto

lemma map_of_map_set_same: "map_of (map_set k v m) k = Some v"
proof (cases "map_has k m")
  case True
  then show ?thesis by (simp add: map_set_def map_has_def map_of_replace)
next
  case False
  then have "map_of m k = None" by (simp add: map_has_def map_of_eq_None_iff)
  then show ?thesis using False by (simp add: map_set_def map_add_def)
qed

lemma demo_cache_entries: "cache demo_cache = [(''1:X'', demo_entry)]"
  by (simp add: demo_cache_def set_entry_def evict_if_full_def CacheService_new_def demo_config_def demo_arg_def
     js_or_def map_has_def map_set_def stored_entry_def Let_def demo_entry_def saveToDisk_def)

text \<open>
  C4, amended. The code tests \<open>timestamp + ttl < now\<close>, so an entry expires strictly
  after the instant \<open>timestamp + ttl\<close>. A \<open>get\<close> at a time \<open>now\<close> with
  \<open>timestamp + ttl < now\<close> returns \<open>null\<close>, removes the entry, counts one miss and no hit.
  A \<open>get\<close> at a time \<open>now\<close> with \<open>now \<le> timestamp + ttl\<close>, the instant
  \<open>now = timestamp + ttl\<close> included, returns the entry with one more hit, keeps it in the
  cache, counts one hit and no miss.
\<close>

theorem get_expires_strictly_after:
  assumes "map_of (cache c) k = Some entry"
  shows "(timestamp entry + ttl entry < now \<longrightarrow>
            fst (get now k c) = None
          \<and> map_of (cache (snd (get now k c))) k = None
          \<and> stat_misses (stats (snd (get now k c))) = stat_misses (stats c) + 1
          \<and> stat_hits (stats (snd (get now k c))) = stat_hits (stats c))
       \<and> (now \<le> timestamp entry + ttl entry \<longrightarrow>
            fst (get now k c) = Some (entry\<lparr>hits := hits entry + 1\<rparr>)
          \<and> map_of (cache (snd (get now k c))) k = Some (entry\<lparr>hits := hits entry + 1\<rparr>)
          \<and> stat_hits (stats (snd (get now k c))) = stat_hits (stats c) + 1
          \<and> stat_misses (stats (snd (get now k c))) = stat_misses (stats c))"
  using assms
  by (simp add: get_def isExpired_def Let_def map_of_map_delete_same map_of_map_set_same)

text \<open>
  The entry of the example cache, stored at 1000 with a \<open>ttl\<close> of 100, read at 1101 and read
  at 1100.
\<close>

theorem get_expires_strictly_after_witness:
  "(fst (get 1101 ''1:X'' demo_cache) = None
    \<and> map_of (cache (snd (get 1101 ''1:X'' demo_cache))) ''1:X'' = None
    \<and> stat_misses (stats (snd (get 1101 ''1:X'' demo_cache))) = stat_misses (stats demo_cache) + 1
    \<and> stat_hits (stats (snd (get 1101 ''1:X'' demo_cache))) = stat_hits (stats demo_cache))
   \<and> (fst (get 1100 ''1:X'' demo_cache) = Some (demo_entry\<lparr>hits := 2\<rparr>)
      \<and> map_of (cache (snd (get 1100 ''1:X'' demo_cache))) ''1:X'' = Some (demo_entry\<lparr>hits := 2\<rparr>)
      \<and> stat_hits (stats (snd (get 1100 ''1:X'' demo_cache))) = stat_hits (stats demo_cache) + 1
      \<and> stat_misses (stats (snd (get 1100 ''1:X'' demo_cache))) = stat_misses (stats demo_cache))"
proof -
  have h: "map_of (cache demo_cache) ''1:X'' = Some demo_entry"
    by (simp add: demo_cache_entries)
  have late: "timestamp demo_entry + ttl demo_entry < 1101"
    and boundary: "1100 \<le> timestamp demo_entry + ttl demo_entry"
    and bumped: "hits demo_entry + 1 = 2"
    by (simp_all add: demo_entry_def)
  show ?thesis
    using get_expires_strictly_after[OF h, of 1101] get_expires_strictly_after[OF h, of 1100]
          late boundary
    by (simp add: bumped)
qed

text \<open>
  C4 as stated fails at the instant \<open>now = timestamp + ttl\<close> itself: the entry stored at
  1000 with a \<open>ttl\<close> of 100 is still served at 1100, stays in the cache, and the read is
  counted as a hit, not as a miss.
\<close>

theorem get_at_expiry_instant_counterexample:
  "timestamp demo_entry + ttl demo_entry = 1100
   \<and> map_of (cache demo_cache) ''1:X'' = Some demo_entry
   \<and> fst (get 1100 ''1:X'' demo_cache) = Some (demo_entry\<lparr>hits := 2\<rparr>)
   \<and> map_of (cache (snd (get 1100 ''1:X'' demo_cache))) ''1:X'' = Some (demo_entry\<lparr>hits := 2\<rparr>)
   \<and> stat_hits (stats (snd (get 1100 ''1:X'' demo_cache))) = stat_hits (stats demo_cache) + 1
   \<and> stat_misses (stats (snd (get 1100 ''1:X'' demo_cache))) = stat_misses (stats demo_cache)"
  by (simp add: get_def demo_cache_entries isExpired_def Let_def map_delete_def map_set_def map_has_def)
     (simp add: demo_entry_def)

section \<open>LRU order\<close>

text \<open>
  Recency as the specification words it: a logical clock that ticks at every touch, and for
  each key the tick of its last touch. A \<open>get\<close> that hits and every \<open>set\<close> touch their key;
  a \<open>get\<close> that misses (absent or expired) touches nothing. This is bookkeeping beside the
  code, used only to say which key is the least recently touched one.
\<close>

record recency =
  clock :: nat
  touched :: "key \<Rightarrow> nat"

definition recency0 :: recency where
  "recency0 = \<lparr> clock = 1, touched = (\<lambda>_. 0) \<rparr>"

definition touch :: "key \<Rightarrow> recency \<Rightarrow> recency" where
  "touch k r = \<lparr> clock = clock r + 1, touched = (touched r)(k := clock r) \<rparr>"

datatype cache_op = OpGet int key | OpSet int key entry_arg

fun step :: "cache_op \<Rightarrow> CacheService \<times> recency \<Rightarrow> CacheService \<times> recency" where
  "step (OpGet now k) (c, r) =
     (case get now k c of
        (None, c') \<Rightarrow> (c', r)
      | (Some _, c') \<Rightarrow> (c', touch k r))"
| "step (OpSet now k e) (c, r) = (set_entry now k e c, touch k r)"

definition run :: "cache_op list \<Rightarrow> CacheService \<times> recency \<Rightarrow> CacheService \<times> recency" where
  "run ops s = fold step ops s"

definition lru_inv :: "CacheService \<times> recency \<Rightarrow> bool" where
  "lru_inv s = (case s of (c, r) \<Rightarrow>
     distinct (map_keys (cache c))
   \<and> sorted_wrt (<) (map (touched r) (map_keys (cache c)))
   \<and> list_all (\<lambda>k. touched r k < clock r) (map_keys (cache c)))"

lemma map_has_keys: "map_has k m = (k \<in> set (map_keys m))"
  by (simp add: map_has_def map_keys_def)

lemma map_keys_delete: "map_keys (map_delete k m) = filter (\<lambda>x. x \<noteq> k) (map_keys m)"
  by (induction m) (auto simp: map_delete_def map_keys_def)

lemma map_keys_set_new: "\<not> map_has k m \<Longrightarrow> map_keys (map_set k v m) = map_keys m @ [k]"
  by (simp add: map_set_def map_keys_def)

lemma map_of_keys: "(map_of m k = None) = (k \<notin> set (map_keys m))"
  by (simp add: map_of_eq_None_iff map_keys_def)

lemma filter_neq_absent: "k \<notin> set xs \<Longrightarrow> filter (\<lambda>x. x \<noteq> k) xs = xs"
  by (induction xs) auto

lemma get_keys:
  "map_keys (cache (snd (get now k c))) =
     filter (\<lambda>x. x \<noteq> k) (map_keys (cache c)) @ (if fst (get now k c) = None then [] else [k])"
proof (cases "map_of (cache c) k")
  case None
  then have "k \<notin> set (map_keys (cache c))" by (simp add: map_of_keys)
  then have "filter (\<lambda>x. x \<noteq> k) (map_keys (cache c)) = map_keys (cache c)"
    by (rule filter_neq_absent)
  with None show ?thesis by (simp add: get_def)
next
  case (Some entry)
  have "\<not> map_has k (map_delete k (cache c))"
    by (simp add: map_has_keys map_keys_delete)
  then show ?thesis using Some
    by (simp add: get_def Let_def map_keys_delete map_keys_set_new)
qed

definition evicted_keys :: "int \<Rightarrow> key \<Rightarrow> key list \<Rightarrow> key list" where
  "evicted_keys mx k ks =
     (if int (length ks) \<ge> mx \<and> k \<notin> set ks then
        (case ks of [] \<Rightarrow> [] | f # _ \<Rightarrow> filter (\<lambda>x. x \<noteq> f) ks)
      else ks)"

lemma evict_keys:
  "map_keys (cache (evict_if_full k c)) = evicted_keys (maxSize c) k (map_keys (cache c))"
proof (cases "cache c")
  case Nil
  then show ?thesis
    by (simp add: evict_if_full_def evicted_keys_def map_has_keys first_key_def
          map_delete_opt_def map_keys_def)
next
  case (Cons p m)
  then have "first_key (cache c) = Some (fst p)" and "map_keys (cache c) = fst p # map_keys m"
    and "length (cache c) = Suc (length (map_keys m))"
    by (simp_all add: first_key_def map_keys_def)
  then show ?thesis
    using map_keys_delete[of "fst p" "cache c"]
    by (simp add: evict_if_full_def evicted_keys_def map_has_keys map_delete_opt_def)
qed

lemma set_entry_keys:
  "map_keys (cache (set_entry now k e c)) =
     filter (\<lambda>x. x \<noteq> k) (evicted_keys (maxSize c) k (map_keys (cache c))) @ [k]"
proof -
  let ?c1 = "evict_if_full k c"
  let ?c2 = "if map_has k (cache ?c1) then ?c1\<lparr>cache := map_delete k (cache ?c1)\<rparr> else ?c1"
  have k2: "map_keys (cache ?c2) = filter (\<lambda>x. x \<noteq> k) (map_keys (cache ?c1))"
    by (simp add: map_keys_delete map_has_keys filter_neq_absent)
  then have "\<not> map_has k (cache ?c2)"
    by (simp add: map_has_keys)
  then have "map_keys (map_set k v (cache ?c2)) = filter (\<lambda>x. x \<noteq> k) (map_keys (cache ?c1)) @ [k]" for v
    using k2 by (simp add: map_keys_set_new)
  then show ?thesis
    by (simp add: set_entry_def Let_def saveToDisk_def evict_keys)
qed



lemma evicted_keys_sub: "\<exists>P. evicted_keys mx k ks = filter P ks"
proof (cases "evicted_keys mx k ks = ks")
  case True
  then have "evicted_keys mx k ks = filter (\<lambda>_. True) ks" by simp
  then show ?thesis by blast
next
  case False
  then obtain f fs where "ks = f # fs" and "evicted_keys mx k ks = filter (\<lambda>x. x \<noteq> f) ks"
    by (cases ks) (auto simp: evicted_keys_def split: if_splits)
  then show ?thesis by blast
qed

lemma inv_touch_append:
  assumes "lru_inv (c, r)"
      and "map_keys (cache c') = filter P (map_keys (cache c)) @ [k]"
      and "\<And>x. P x \<Longrightarrow> x \<noteq> k"
  shows "lru_inv (c', touch k r)"
proof -
  let ?ks = "map_keys (cache c)"
  let ?fs = "filter P ?ks"
  from assms(1) have d: "distinct ?ks" and s: "sorted_wrt (<) (map (touched r) ?ks)"
    and b: "list_all (\<lambda>k. touched r k < clock r) ?ks"
    by (simp_all add: lru_inv_def)
  have nk: "k \<notin> set ?fs" using assms(3) by auto
  have same: "map (touched (touch k r)) ?fs = map (touched r) ?fs"
    using nk by (auto simp: touch_def)
  have s': "sorted_wrt (<) (map (touched r) ?fs)"
    using s by (simp add: sorted_wrt_map sorted_wrt_filter)
  have b': "\<forall>x\<in>set ?fs. touched r x < clock r"
    using b by (auto simp: list_all_iff)
  have "distinct (?fs @ [k])" using d nk by simp
  moreover have "map (touched (touch k r)) (?fs @ [k]) = map (touched r) ?fs @ [clock r]"
    using same by (simp add: touch_def)
  moreover have "sorted_wrt (<) (map (touched r) ?fs @ [clock r])"
    using s' b' by (auto simp: sorted_wrt_append)
  moreover have "list_all (\<lambda>x. touched (touch k r) x < clock (touch k r)) (?fs @ [k])"
    using b' by (auto simp: list_all_iff touch_def)
  ultimately show ?thesis by (simp add: lru_inv_def assms(2) del: map_append)
qed

lemma inv_filter:
  assumes "lru_inv (c, r)"
      and "map_keys (cache c') = filter P (map_keys (cache c))"
  shows "lru_inv (c', r)"
proof -
  from assms(1) have d: "distinct (map_keys (cache c))"
    and s: "sorted_wrt (<) (map (touched r) (map_keys (cache c)))"
    and b: "list_all (\<lambda>k. touched r k < clock r) (map_keys (cache c))"
    by (simp_all add: lru_inv_def)
  have "sorted_wrt (<) (map (touched r) (filter P (map_keys (cache c))))"
    using s by (simp add: sorted_wrt_map sorted_wrt_filter)
  moreover have "list_all (\<lambda>k. touched r k < clock r) (filter P (map_keys (cache c)))"
    using b by (simp add: list_all_iff)
  ultimately show ?thesis using d by (simp add: lru_inv_def assms(2))
qed

lemma step_inv: "lru_inv s \<Longrightarrow> lru_inv (step op s)"
proof (cases s)
  case (Pair c r)
  assume inv: "lru_inv s"
  show ?thesis
  proof (cases op)
    case (OpGet now k)
    obtain res c' where g: "get now k c = (res, c')" by (cases "get now k c")
    have ks: "map_keys (cache c') =
        filter (\<lambda>x. x \<noteq> k) (map_keys (cache c)) @ (if res = None then [] else [k])"
      using get_keys[of now k c] g by simp
    show ?thesis
    proof (cases res)
      case None
      then have "lru_inv (c', r)" using inv Pair ks inv_filter[of c r c'] by simp
      then show ?thesis using None Pair OpGet g by simp
    next
      case (Some a)
      then have "lru_inv (c', touch k r)"
        using inv Pair ks inv_touch_append[of c r c' "\<lambda>x. x \<noteq> k" k] by simp
      then show ?thesis using Some Pair OpGet g by simp
    qed
  next
    case (OpSet now k e)
    obtain P where P: "evicted_keys (maxSize c) k (map_keys (cache c)) = filter P (map_keys (cache c))"
      using evicted_keys_sub by blast
    have "map_keys (cache (set_entry now k e c)) =
            filter (\<lambda>x. P x \<and> x \<noteq> k) (map_keys (cache c)) @ [k]"
      by (simp add: set_entry_keys P conj_commute)
    then have "lru_inv (set_entry now k e c, touch k r)"
      using inv Pair inv_touch_append[of c r _ "\<lambda>x. P x \<and> x \<noteq> k" k] by blast
    then show ?thesis using Pair OpSet by simp
  qed
qed

lemma run_inv: "lru_inv s \<Longrightarrow> lru_inv (run ops s)"
  unfolding run_def by (induction ops arbitrary: s) (auto simp: step_inv)

lemma get_maxSize: "maxSize (snd (get now k c)) = maxSize c"
  by (simp add: get_def Let_def split: option.splits)

lemma set_entry_maxSize: "maxSize (set_entry now k e c) = maxSize c"
  by (simp add: set_entry_def Let_def evict_if_full_def saveToDisk_def)

lemma step_maxSize: "maxSize (fst (step op s)) = maxSize (fst s)"
proof (cases s)
  case (Pair c r)
  show ?thesis
  proof (cases op)
    case (OpGet now k)
    have "maxSize (snd (get now k c)) = maxSize c" by (rule get_maxSize)
    then show ?thesis using Pair OpGet by (cases "get now k c") (simp split: option.splits)
  next
    case (OpSet now k e)
    then show ?thesis using Pair by (simp add: set_entry_maxSize)
  qed
qed

lemma run_maxSize: "maxSize (fst (run ops s)) = maxSize (fst s)"
  unfolding run_def by (induction ops arbitrary: s) (auto simp: step_maxSize)

lemma new_inv: "lru_inv (CacheService_new cfg, recency0)"
  by (simp add: lru_inv_def CacheService_new_def map_keys_def)

lemma new_maxSize: "maxSize (CacheService_new cfg) \<noteq> 0"
  by (simp add: CacheService_new_def js_or_def split: option.splits)

text \<open>A run on the example cache: two stores that fill it, then a read of the older key.\<close>

definition demo_ops :: "cache_op list" where
  "demo_ops = [OpSet 1000 ''1:X'' (demo_arg ''1'' ''u1'' 1000),
               OpSet 1010 ''2:Y'' (demo_arg ''2'' ''u2'' 1010),
               OpGet 1020 ''1:X'']"

definition demo_state :: "CacheService \<times> recency" where
  "demo_state = run demo_ops (CacheService_new demo_config, recency0)"

lemma fst_step_get: "fst (step (OpGet now k) s) = snd (get now k (fst s))"
  by (cases s; cases "get now k (fst s)") (simp split: option.splits)

lemma fst_step_set: "fst (step (OpSet now k e) s) = set_entry now k e (fst s)"
  by (cases s) simp

definition demo_cache2 :: CacheService where
  "demo_cache2 = set_entry 1010 ''2:Y'' (demo_arg ''2'' ''u2'' 1010) demo_cache"

lemma demo_state_cache: "fst demo_state = snd (get 1020 ''1:X'' demo_cache2)"
  by (simp add: demo_state_def demo_ops_def run_def fst_step_get fst_step_set demo_cache2_def
        demo_cache_def del: step.simps)

lemma demo_cache_maxSize: "maxSize demo_cache = 2"
  by (simp add: demo_cache_def set_entry_maxSize CacheService_new_def demo_config_def js_or_def)

lemma demo_cache_keys: "map_keys (cache demo_cache) = [''1:X'']"
  by (simp add: demo_cache_entries map_keys_def)

lemma demo_cache2_keys: "map_keys (cache demo_cache2) = [''1:X'', ''2:Y'']"
  by (simp add: demo_cache2_def set_entry_keys demo_cache_keys demo_cache_maxSize
        evicted_keys_def)

lemma demo_fst_get: "fst (get 1020 ''1:X'' demo_cache2) \<noteq> None"
proof -
  have "map_of (cache demo_cache2) ''1:X'' = Some demo_entry"
    by (simp add: demo_cache2_def set_entry_def Let_def evict_if_full_def demo_cache_entries
          demo_cache_maxSize map_has_def map_set_def saveToDisk_def)
  then show ?thesis by (simp add: get_def isExpired_def demo_entry_def Let_def)
qed

lemma demo_keys: "map_keys (cache (fst demo_state)) = [''2:Y'', ''1:X'']"
  using demo_fst_get by (simp add: demo_state_cache get_keys demo_cache2_keys)

lemma demo_max: "maxSize (fst demo_state) = 2"
  by (simp add: demo_state_cache get_maxSize demo_cache2_def set_entry_maxSize demo_cache_maxSize)

text \<open>
  C5. Take any sequence of \<open>get\<close> and \<open>set\<close> operations on a fresh cache. If it leaves the
  cache holding exactly \<open>maxSize\<close> entries and \<open>set\<close> is then called with a new key, the
  key that disappears is the first one in the map, every other key stays, the new key goes to
  the most recently used end, and the evicted key was touched strictly earlier than every key
  that stays; the order of the map is the order of last touch.
\<close>

theorem lru_eviction:
  assumes "run ops (CacheService_new cfg, recency0) = (c, r)"
      and "int (length (cache c)) = maxSize c"
      and "\<not> map_has k (cache c)"
  shows "\<exists>victim rest.
           map_keys (cache c) = victim # rest
         \<and> map_keys (cache (set_entry now k e c)) = rest @ [k]
         \<and> list_all (\<lambda>k'. touched r victim < touched r k') rest
         \<and> sorted_wrt (<) (map (touched r) (map_keys (cache c)))"
proof -
  have inv: "lru_inv (c, r)"
    using run_inv[OF new_inv, of ops cfg] assms(1) by simp
  have "maxSize c \<noteq> 0"
    using run_maxSize[of ops "(CacheService_new cfg, recency0)"] assms(1) new_maxSize by simp
  then have "cache c \<noteq> []" using assms(2) by auto
  then obtain victim rest where ks: "map_keys (cache c) = victim # rest"
    by (cases "cache c") (auto simp: map_keys_def)
  from inv ks have d: "victim \<notin> set rest"
    and s: "sorted_wrt (<) (map (touched r) (victim # rest))"
    by (simp_all add: lru_inv_def)
  have len: "int (length (map_keys (cache c))) \<ge> maxSize c"
    using assms(2) by (simp add: map_keys_def)
  have knot: "k \<notin> set (map_keys (cache c))" using assms(3) by (simp add: map_has_keys)
  have "evicted_keys (maxSize c) k (map_keys (cache c)) = rest"
    using len knot d ks by (simp add: evicted_keys_def filter_neq_absent)
  moreover have "filter (\<lambda>x. x \<noteq> k) rest = rest"
    using knot ks by (simp add: filter_neq_absent)
  ultimately have "map_keys (cache (set_entry now k e c)) = rest @ [k]"
    by (simp add: set_entry_keys)
  moreover have "list_all (\<lambda>k'. touched r victim < touched r k') rest"
    using s by (auto simp: list_all_iff)
  ultimately show ?thesis using ks s by auto
qed


theorem lru_eviction_witness:
  "\<exists>victim rest.
           map_keys (cache (fst demo_state)) = victim # rest
         \<and> map_keys (cache (set_entry 1030 ''3:Z'' (demo_arg ''3'' ''u3'' 1030) (fst demo_state))) = rest @ [''3:Z'']
         \<and> list_all (\<lambda>k'. touched (snd demo_state) victim < touched (snd demo_state) k') rest
         \<and> sorted_wrt (<) (map (touched (snd demo_state)) (map_keys (cache (fst demo_state))))"
proof -
  have h1: "run demo_ops (CacheService_new demo_config, recency0) = (fst demo_state, snd demo_state)"
    by (simp add: demo_state_def)
  have "length (map_keys (cache (fst demo_state))) = 2"
    by (simp add: demo_keys)
  then have h2: "int (length (cache (fst demo_state))) = maxSize (fst demo_state)"
    by (simp add: demo_max map_keys_def)
  have h3: "\<not> map_has ''3:Z'' (cache (fst demo_state))"
    by (simp add: map_has_keys demo_keys)
  show ?thesis using lru_eviction[OF h1 h2 h3] .
qed

section \<open>Cache persistence\<close>

text \<open>
  The document written to the cache file:
  \<open>{version, timestamp, entries: Object.fromEntries(this.cache), stats: {sets, evictions, size}}\<close>.
\<close>

record persisted_stats =
  p_sets :: int
  p_evictions :: int
  p_size :: int

record cacheData =
  version :: string
  data_timestamp :: int
  entries :: "(key, PosterCacheEntry) jsmap"
  data_stats :: persisted_stats

definition cacheData_of :: "int \<Rightarrow> CacheService \<Rightarrow> cacheData" where
  "cacheData_of now c =
     \<lparr> version = ''1.0'', data_timestamp = now, entries = cache c,
       data_stats = \<lparr> p_sets = stat_sets (stats c), p_evictions = stat_evictions (stats c),
                       p_size = stat_size (stats c) \<rparr> \<rparr>"

text \<open>
  The calls made on \<open>fs.promises\<close>. \<open>MkdirDirname p\<close> is
  \<open>fs.mkdir(path.dirname(p), {recursive: true})\<close>; \<open>WriteFile p d\<close> writes the JSON text of
  \<open>d\<close> to \<open>p\<close>; \<open>Rename a b\<close> is \<open>fs.rename(a, b)\<close>.
\<close>

datatype fs_call = MkdirDirname string | WriteFile string cacheData | Rename string string

text \<open>
  A sequence of awaited calls inside one \<open>try\<close> block: the first call that rejects ends the
  block (the \<open>catch\<close> only logs). \<open>ok\<close> tells which calls succeed.
\<close>

fun try_calls :: "(fs_call \<Rightarrow> bool) \<Rightarrow> fs_call list \<Rightarrow> fs_call list" where
  "try_calls ok [] = []"
| "try_calls ok (x # xs) = x # (if ok x then try_calls ok xs else [])"

text \<open>
  The callback that \<open>_saveToDisk\<close> hands to \<open>setTimeout\<close>, run by the event loop once the
  pending timer is due: the calls it makes, and the cache afterwards.
\<close>

definition saveTimer_fire ::
  "(fs_call \<Rightarrow> bool) \<Rightarrow> int \<Rightarrow> CacheService \<Rightarrow> fs_call list \<times> CacheService" where
  "saveTimer_fire ok now c =
     (case saveTimeout c of
        Pending due \<Rightarrow>
          if due \<le> now then
            (let tempFilePath = cacheFilePath c @ ''.tmp'' in
             (try_calls ok [MkdirDirname (cacheFilePath c),
                            WriteFile tempFilePath (cacheData_of now c),
                            Rename tempFilePath (cacheFilePath c)],
              c\<lparr>saveTimeout := Fired\<rparr>))
          else ([], c)
      | _ \<Rightarrow> ([], c))"

text \<open>\<open>shutdown()\<close>: the calls it makes, and the cache afterwards.\<close>

definition shutdown ::
  "(fs_call \<Rightarrow> bool) \<Rightarrow> int \<Rightarrow> CacheService \<Rightarrow> fs_call list \<times> CacheService" where
  "shutdown ok now c =
     (let c1 = (if saveTimeout c \<noteq> NoTimer then c\<lparr>saveTimeout := NoTimer\<rparr> else c);
          calls = (if persistToDisk c1 then
                     try_calls ok [MkdirDirname (cacheFilePath c1),
                                   WriteFile (cacheFilePath c1) (cacheData_of now c1)]
                   else [])
      in (calls, c1\<lparr>cache := [], cache_isInitialized := False\<rparr>))"

text \<open>
  A write is atomic, in the sense of the comment in \<open>_saveToDisk\<close>, when the target path is
  only ever the destination of a rename: no call writes to it directly.
\<close>

fun writes_directly :: "string \<Rightarrow> fs_call \<Rightarrow> bool" where
  "writes_directly target (WriteFile p d) = (p = target)"
| "writes_directly target _ = False"

definition atomic_write :: "string \<Rightarrow> fs_call list \<Rightarrow> bool" where
  "atomic_write target calls = (\<not> list_ex (writes_directly target) calls)"

lemma demo_persist: "persistToDisk demo_cache" "cacheFilePath demo_cache = ''cache/poster-cache.json''"
  "saveTimeout demo_cache = Pending 2000"
  by (simp_all add: demo_cache_def set_entry_def Let_def evict_if_full_def saveToDisk_def
        CacheService_new_def demo_config_def)

lemma saveTimer_fire_atomic:
  "atomic_write (cacheFilePath c) (fst (saveTimer_fire ok now c))"
  by (simp add: saveTimer_fire_def atomic_write_def Let_def split: save_timer.splits)

lemma saveTimer_fire_demo:
  "fst (saveTimer_fire (\<lambda>_. True) 2000 demo_cache) =
     [MkdirDirname ''cache/poster-cache.json'',
      WriteFile ''cache/poster-cache.json.tmp'' (cacheData_of 2000 demo_cache),
      Rename ''cache/poster-cache.json.tmp'' ''cache/poster-cache.json'']"
  by (simp add: saveTimer_fire_def demo_persist Let_def)

lemma shutdown_not_atomic:
  assumes "persistToDisk c" and "ok (MkdirDirname (cacheFilePath c))"
  shows "\<not> atomic_write (cacheFilePath c) (fst (shutdown ok now c))"
  using assms by (simp add: shutdown_def Let_def atomic_write_def)

text \<open>
  C8 holds for the debounced save (\<open>saveTimer_fire_atomic\<close>, \<open>saveTimer_fire_demo\<close>) and
  fails for the final save (\<open>shutdown_not_atomic\<close>): \<open>shutdown\<close> serializes the same
  document but writes it straight to the cache file, with no temporary file and no rename.
  On the example cache:
\<close>

theorem shutdown_writes_target_directly:
  "fst (shutdown (\<lambda>_. True) 5000 demo_cache) =
     [MkdirDirname ''cache/poster-cache.json'',
      WriteFile ''cache/poster-cache.json'' (cacheData_of 5000 (demo_cache\<lparr>saveTimeout := NoTimer\<rparr>))]
   \<and> \<not> atomic_write ''cache/poster-cache.json'' (fst (shutdown (\<lambda>_. True) 5000 demo_cache))
   \<and> entries (cacheData_of 5000 (demo_cache\<lparr>saveTimeout := NoTimer\<rparr>)) = cache demo_cache"
  by (simp add: shutdown_def demo_persist Let_def atomic_write_def cacheData_of_def)

section \<open>PosterSource: the base class of the providers\<close>

text \<open>
  An \<open>Error\<close> object: its \<open>name\<close> and its \<open>message\<close>. \<open>new Error(msg)\<close> has the name
  \<open>Error\<close>.
\<close>

datatype js_error = JsError (err_name: string) (err_message: string)

definition new_Error :: "string \<Rightarrow> js_error" where
  "new_Error msg = JsError ''Error'' msg"

text \<open>A poster URL or \<open>null\<close>; \<open>null\<close> and the empty string are falsy.\<close>

definition truthy :: "string option \<Rightarrow> bool" where
  "truthy u = (case u of None \<Rightarrow> False | Some s \<Rightarrow> s \<noteq> [])"

text \<open>
  A JavaScript number that may be \<open>Infinity\<close> or \<open>NaN\<close>. Finite values are held as
  exact rationals: the claims below never depend on the rounding of a quotient.
\<close>

datatype jsnum = Finite rat | Infinity | NaN

record SourceMetrics =
  totalRequests :: int
  successfulRequests :: int
  failedRequests :: int
  averageResponseTime :: rat
  lastError :: "string option"
  consecutiveFailures :: int
  isTemporarilyDisabled :: bool
  lastSuccessTime :: int

definition metrics0 :: SourceMetrics where
  "metrics0 = \<lparr> totalRequests = 0, successfulRequests = 0, failedRequests = 0,
                averageResponseTime = 0, lastError = None, consecutiveFailures = 0,
                isTemporarilyDisabled = False, lastSuccessTime = 0 \<rparr>"

datatype circuit = CLOSED | OPEN | HALF_OPEN

text \<open>
  The two callbacks the sources hand to \<open>setTimeout\<close>: the one of \<open>temporarilyDisable\<close>
  clears the disabled flag and the failure count; the one of \<open>_onFailure\<close> clears the flag
  if the circuit is still open.
\<close>

datatype timer_action = ReEnable | ReEnableIfOpen

datatype source_kind = Kitsu | TMDB | Nautiljon

text \<open>
  One record for the three provider classes: the fields of \<open>PosterSource\<close>, then those
  that \<open>KitsuSource\<close>, \<open>TMDBSource\<close> and \<open>NautiljonSource\<close> add (the circuit breaker of
  Kitsu and TMDB, the last-request limiter of Kitsu and Nautiljon, the window limiter of
  TMDB). \<open>timers\<close> lists the pending \<open>setTimeout\<close> callbacks with the instant they are due.
\<close>

record PosterSource =
  name :: string
  priority :: int
  isEnabled :: bool
  timeout :: int
  metrics :: SourceMetrics
  responseTimes :: "int list"
  kind :: source_kind
  circuitState :: circuit
  failureThreshold :: int
  disableDuration :: int
  nextAttemptTime :: int
  apiKey :: "string option"
  lastRequestTime :: int
  minRequestInterval :: jsnum
  requestTimes :: "int list"
  maxRequestsPer10Sec :: int
  rateLimitWindow :: int
  timers :: "(int \<times> timer_action) list"

text \<open>
  The \<open>rateLimit\<close> property of a source's configuration: the tests pass a number, the
  default configuration of the add-on an object \<open>{requests, window}\<close>.
\<close>

datatype rate_config = RateNumber int | RateObject int int

record source_config =
  src_enabled :: "bool option"
  src_timeout :: "int option"
  src_rateLimit :: "rate_config option"
  src_failureThreshold :: "int option"
  src_disableDuration :: "int option"
  src_apiKey :: "string option"

text \<open>\<open>{...defaults, ...config}\<close> on one numeric property.\<close>

definition spread :: "int \<Rightarrow> int option \<Rightarrow> int" where
  "spread dflt x = (case x of None \<Rightarrow> dflt | Some v \<Rightarrow> v)"

text \<open>
  \<open>60000 / this.config.rateLimit\<close> after \<open>{rateLimit: 30, ...config}\<close>: dividing by an
  object gives \<open>NaN\<close>, dividing by 0 gives \<open>Infinity\<close>.
\<close>

definition kitsu_interval :: "rate_config option \<Rightarrow> jsnum" where
  "kitsu_interval r =
     (case r of
        None \<Rightarrow> Finite (60000 / 30)
      | Some (RateNumber n) \<Rightarrow> if n = 0 then Infinity else Finite (60000 / of_int n)
      | Some (RateObject _ _) \<Rightarrow> NaN)"

definition KitsuSource_new :: "source_config \<Rightarrow> PosterSource" where
  "KitsuSource_new config =
     \<lparr> name = ''kitsu'', priority = 1,
       isEnabled = (src_enabled config \<noteq> Some False),
       timeout = js_or (Some (spread 3000 (src_timeout config))) 3000,
       metrics = metrics0, responseTimes = [],
       kind = Kitsu, circuitState = CLOSED,
       failureThreshold = js_or (src_failureThreshold config) 10,
       disableDuration = js_or (src_disableDuration config) (30 * 60 * 1000),
       nextAttemptTime = 0,
       apiKey = None,
       lastRequestTime = 0,
       minRequestInterval = kitsu_interval (src_rateLimit config),
       requestTimes = [], maxRequestsPer10Sec = 0, rateLimitWindow = 0,
       timers = [] \<rparr>"

text \<open>
  \<open>env_key\<close> is \<open>process.env.TMDB_API_KEY\<close>. Without a key the constructor calls
  \<open>setEnabled(false)\<close>.
\<close>

definition TMDBSource_new :: "string option \<Rightarrow> source_config \<Rightarrow> PosterSource" where
  "TMDBSource_new env_key config =
     (let key = (if truthy (src_apiKey config) then src_apiKey config else env_key) in
      \<lparr> name = ''tmdb'', priority = 2,
        isEnabled = (src_enabled config \<noteq> Some False \<and> truthy key),
        timeout = js_or (Some (spread 3000 (src_timeout config))) 3000,
        metrics = metrics0, responseTimes = [],
        kind = TMDB, circuitState = CLOSED,
        failureThreshold = js_or (src_failureThreshold config) 10,
        disableDuration = js_or (src_disableDuration config) (30 * 60 * 1000),
        nextAttemptTime = 0,
        apiKey = key,
        lastRequestTime = 0, minRequestInterval = Finite 0,
        requestTimes = [], maxRequestsPer10Sec = 40, rateLimitWindow = 10000,
        timers = [] \<rparr>)"


definition isAvailable :: "PosterSource \<Rightarrow> bool" where
  "isAvailable s = (isEnabled s \<and> \<not> isTemporarilyDisabled (metrics s))"

definition setEnabled :: "bool \<Rightarrow> PosterSource \<Rightarrow> PosterSource" where
  "setEnabled enabled s =
     (let s1 = s\<lparr>isEnabled := enabled\<rparr>
      in if enabled then s1\<lparr>metrics := (metrics s1)\<lparr>isTemporarilyDisabled := False\<rparr>\<rparr> else s1)"

text \<open>\<open>temporarilyDisable(duration)\<close> called at \<open>now\<close>.\<close>

definition temporarilyDisable :: "int \<Rightarrow> int \<Rightarrow> PosterSource \<Rightarrow> PosterSource" where
  "temporarilyDisable now duration s =
     s\<lparr>metrics := (metrics s)\<lparr>isTemporarilyDisabled := True\<rparr>,
       timers := timers s @ [(now + duration, ReEnable)]\<rparr>"

definition run_timer :: "timer_action \<Rightarrow> PosterSource \<Rightarrow> PosterSource" where
  "run_timer a s =
     (case a of
        ReEnable \<Rightarrow>
          s\<lparr>metrics := (metrics s)\<lparr>isTemporarilyDisabled := False, consecutiveFailures := 0\<rparr>\<rparr>
      | ReEnableIfOpen \<Rightarrow>
          if circuitState s = OPEN
          then s\<lparr>metrics := (metrics s)\<lparr>isTemporarilyDisabled := False\<rparr>\<rparr> else s)"

text \<open>\<open>_updateAverageResponseTime\<close>: the mean of the last 100 response times.\<close>

definition updateAverageResponseTime :: "int \<Rightarrow> PosterSource \<Rightarrow> PosterSource" where
  "updateAverageResponseTime responseTime s =
     (let pushed = responseTimes s @ [responseTime];
          kept = (if length pushed > 100 then tl pushed else pushed)
      in s\<lparr>responseTimes := kept,
           metrics := (metrics s)\<lparr>averageResponseTime :=
                         of_int (sum_list kept) / of_int (int (length kept))\<rparr>\<rparr>)"

text \<open>\<open>_recordSuccess(responseTime)\<close>, with \<open>Date.now()\<close> reading \<open>now\<close>.\<close>

definition recordSuccess :: "int \<Rightarrow> int \<Rightarrow> PosterSource \<Rightarrow> PosterSource" where
  "recordSuccess responseTime now s =
     updateAverageResponseTime responseTime
       (s\<lparr>metrics := (metrics s)\<lparr>totalRequests := totalRequests (metrics s) + 1,
                                  successfulRequests := successfulRequests (metrics s) + 1,
                                  consecutiveFailures := 0,
                                  lastSuccessTime := now\<rparr>\<rparr>)"

text \<open>\<open>PosterSource._recordFailure(error, responseTime)\<close>.\<close>

definition base_recordFailure :: "js_error \<Rightarrow> int \<Rightarrow> PosterSource \<Rightarrow> PosterSource" where
  "base_recordFailure error responseTime s =
     (let s1 = s\<lparr>metrics := (metrics s)\<lparr>totalRequests := totalRequests (metrics s) + 1,
                                          failedRequests := failedRequests (metrics s) + 1,
                                          consecutiveFailures := consecutiveFailures (metrics s) + 1,
                                          lastError := Some (err_message error)\<rparr>\<rparr>
      in if responseTime > 0 then updateAverageResponseTime responseTime s1 else s1)"

section \<open>The circuit breaker of KitsuSource and TMDBSource\<close>

text \<open>\<open>_canMakeRequest()\<close> with \<open>Date.now()\<close> reading \<open>now\<close>: the answer and the new state.\<close>

definition canMakeRequest :: "int \<Rightarrow> PosterSource \<Rightarrow> bool \<times> PosterSource" where
  "canMakeRequest now s =
     (case circuitState s of
        CLOSED \<Rightarrow> (True, s)
      | OPEN \<Rightarrow> if now \<ge> nextAttemptTime s then (True, s\<lparr>circuitState := HALF_OPEN\<rparr>)
                else (False, s)
      | HALF_OPEN \<Rightarrow> (True, s))"

definition onSuccess :: "PosterSource \<Rightarrow> PosterSource" where
  "onSuccess s =
     (if circuitState s = HALF_OPEN then
        s\<lparr>circuitState := CLOSED,
          metrics := (metrics s)\<lparr>consecutiveFailures := 0, isTemporarilyDisabled := False\<rparr>\<rparr>
      else s)"

definition onFailure :: "int \<Rightarrow> PosterSource \<Rightarrow> PosterSource" where
  "onFailure now s =
     (if circuitState s = HALF_OPEN then
        s\<lparr>circuitState := OPEN,
          nextAttemptTime := now + disableDuration s,
          metrics := (metrics s)\<lparr>isTemporarilyDisabled := True\<rparr>\<rparr>
      else if consecutiveFailures (metrics s) \<ge> failureThreshold s then
        s\<lparr>circuitState := OPEN,
          nextAttemptTime := now + disableDuration s,
          metrics := (metrics s)\<lparr>isTemporarilyDisabled := True\<rparr>,
          timers := timers s @ [(now + disableDuration s, ReEnableIfOpen)]\<rparr>
      else s)"

text \<open>
  \<open>_recordFailure\<close> as the object sees it: Kitsu and TMDB override it to call \<open>_onFailure\<close>
  after the base method; Nautiljon inherits the base method.
\<close>

definition recordFailure :: "js_error \<Rightarrow> int \<Rightarrow> int \<Rightarrow> PosterSource \<Rightarrow> PosterSource" where
  "recordFailure error responseTime now s =
     (let s1 = base_recordFailure error responseTime s
      in if kind s = Nautiljon then s1 else onFailure now s1)"

definition resetCircuitBreaker :: "PosterSource \<Rightarrow> PosterSource" where
  "resetCircuitBreaker s =
     s\<lparr>circuitState := CLOSED,
       metrics := (metrics s)\<lparr>consecutiveFailures := 0, isTemporarilyDisabled := False\<rparr>,
       nextAttemptTime := 0\<rparr>"

definition openCircuitBreaker :: "int \<Rightarrow> int \<Rightarrow> PosterSource \<Rightarrow> PosterSource" where
  "openCircuitBreaker now duration s =
     s\<lparr>circuitState := OPEN,
       nextAttemptTime := now + duration,
       metrics := (metrics s)\<lparr>isTemporarilyDisabled := True\<rparr>\<rparr>"


section \<open>Rate limiters\<close>


text \<open>The state afterwards; \<open>sent\<close> is \<open>Date.now()\<close> once the wait, if any, is over.\<close>

definition interval_waitForRateLimit :: "int \<Rightarrow> int \<Rightarrow> PosterSource \<Rightarrow> PosterSource" where
  "interval_waitForRateLimit now sent s = s\<lparr>lastRequestTime := sent\<rparr>"

text \<open>
  \<open>TMDBSource._waitForRateLimit\<close>. \<open>Math.min\<close> of no argument is \<open>Infinity\<close>, and then so
  is the delay.
\<close>

definition recentRequests :: "int \<Rightarrow> PosterSource \<Rightarrow> int list" where
  "recentRequests now s = filter (\<lambda>time. now - time < rateLimitWindow s) (requestTimes s)"

definition tmdb_waitTime :: "int \<Rightarrow> PosterSource \<Rightarrow> jsnum option" where
  "tmdb_waitTime now s =
     (let times = recentRequests now s in
      if int (length times) \<ge> maxRequestsPer10Sec s then
        (case times of
           [] \<Rightarrow> Some Infinity
         | t # ts \<Rightarrow>
             (let oldestRequest = Min (set (t # ts));
                  waitTime = rateLimitWindow s - (now - oldestRequest) + 100
              in if waitTime > 0 then Some (Finite (of_int waitTime)) else None))
      else None)"

definition tmdb_waitForRateLimit :: "int \<Rightarrow> int \<Rightarrow> PosterSource \<Rightarrow> PosterSource" where
  "tmdb_waitForRateLimit now sent s =
     (let s1 = s\<lparr>requestTimes := recentRequests now s\<rparr>;
          s2 = (if tmdb_waitTime now s \<noteq> None
                then s1\<lparr>requestTimes := recentRequests sent s1\<rparr> else s1)
      in s2\<lparr>requestTimes := requestTimes s2 @ [sent]\<rparr>)"

section \<open>One attempt on a source\<close>

text \<open>
  What the network part of the request function comes to: it throws, or it yields a poster
  URL or \<open>null\<close> (for Kitsu: a 404, or a body without poster image; for TMDB: neither
  search finds a poster), or the timeout timer of \<open>_executeWithMetrics\<close> wins the race.
  When the timer wins, the abandoned request is taken to have passed the rate limiter, and
  what it does later is not followed.
\<close>

datatype net_result = Threw string | Got "string option" | TimedOut

text \<open>
  What the outside world contributes to one call of \<open>fetchPoster\<close>: the readings of
  \<open>Date.now()\<close> on entry, when the rate limiter lets the request go, and when the race
  settles; the outcome of the request; and the builtin \<open>isNaN\<close> on strings.
\<close>

record attempt =
  t_call :: int
  t_sent :: int
  t_done :: int
  net :: net_result
  js_isNaN :: "string \<Rightarrow> bool"

type_synonym fetch_result = "js_error + string option"

text \<open>
  The function handed to \<open>_executeWithMetrics\<close> by Kitsu and TMDB: the rate limiter, the
  request, and \<open>_onSuccess()\<close> only when a poster URL was found. Nautiljon's returns what
  the scraping found and has no circuit breaker.
\<close>

definition requestFn :: "attempt \<Rightarrow> PosterSource \<Rightarrow> fetch_result \<times> PosterSource" where
  "requestFn a s =
     (let s1 = (if kind s = TMDB then tmdb_waitForRateLimit (t_call a) (t_sent a) s
                else interval_waitForRateLimit (t_call a) (t_sent a) s)
      in case net a of
           Threw msg \<Rightarrow> (Inl (new_Error msg), s1)
         | TimedOut \<Rightarrow> (Inl (new_Error ''Timeout''), s1)
         | Got found \<Rightarrow>
             if kind s = Nautiljon then (Inr found, s1)
             else if truthy found then (Inr found, onSuccess s1)
             else (Inr None, s1))"

definition unavailable_error :: "PosterSource \<Rightarrow> js_error" where
  "unavailable_error s = new_Error (''Source '' @ name s @ '' n'' @ [CHR 0x27] @ ''est pas disponible'')"

definition executeWithMetrics :: "attempt \<Rightarrow> PosterSource \<Rightarrow> fetch_result \<times> PosterSource" where
  "executeWithMetrics a s =
     (if \<not> isAvailable s then (Inl (unavailable_error s), s)
      else
        (let startTime = t_call a in
         case requestFn a s of
           (Inr result, s1) \<Rightarrow> (Inr result, recordSuccess (t_done a - startTime) (t_done a) s1)
         | (Inl error, s1) \<Rightarrow>
             (Inl error, recordFailure error (t_done a - startTime) (t_done a) s1)))"

definition circuit_open_error :: "PosterSource \<Rightarrow> js_error" where
  "circuit_open_error s = new_Error (''Circuit breaker ouvert pour '' @ name s)"

text \<open>\<open>fetchPoster(animeId, animeName)\<close> of the three classes.\<close>

definition fetchPoster ::
  "attempt \<Rightarrow> string \<Rightarrow> string \<Rightarrow> PosterSource \<Rightarrow> fetch_result \<times> PosterSource" where
  "fetchPoster a anime_id anime_name s =
     (case kind s of
        Nautiljon \<Rightarrow> executeWithMetrics a s
      | Kitsu \<Rightarrow>
          (case canMakeRequest (t_call a) s of
             (False, s1) \<Rightarrow> (Inl (circuit_open_error s1), s1)
           | (True, s1) \<Rightarrow>
               if anime_id = [] \<or> js_isNaN a anime_id
               then (Inl (new_Error ''ID anime invalide pour Kitsu''), s1)
               else executeWithMetrics a s1)
      | TMDB \<Rightarrow>
          (case canMakeRequest (t_call a) s of
             (False, s1) \<Rightarrow> (Inl (circuit_open_error s1), s1)
           | (True, s1) \<Rightarrow>
               if anime_name = []
               then (Inl (new_Error (''Nom d'' @ [CHR 0x27] @ ''anime requis pour TMDB'')), s1)
               else if \<not> truthy (apiKey s1)
               then (Inl (new_Error (''Cl'' @ [CHR 0xC3, CHR 0xA9] @ '' API TMDB manquante'')), s1)
               else executeWithMetrics a s1))"

section \<open>FallbackChain\<close>

record FallbackResult =
  url :: "string option"
  result_source :: string

record FallbackChain =
  sources :: "(string, PosterSource) jsmap"

definition registerSource :: "PosterSource \<Rightarrow> FallbackChain \<Rightarrow> FallbackChain" where
  "registerSource s fc = fc\<lparr>sources := map_set (name s) s (sources fc)\<rparr>"

text \<open>
  \<open>_getOrderedSources()\<close>: the enabled sources, sorted by ascending priority.
  \<open>Array.prototype.sort\<close> is stable, as \<open>sort_key\<close> is.
\<close>

definition getOrderedSources :: "FallbackChain \<Rightarrow> PosterSource list" where
  "getOrderedSources fc = sort_key priority (filter isEnabled (map snd (sources fc)))"

definition getFailureThreshold :: int where
  "getFailureThreshold = 10"

text \<open>
  The \<open>for\<close> loop of \<open>fetchPoster\<close> over the ordered sources. \<open>world n\<close> is what the outside
  world contributes to the attempt on the source named \<open>n\<close>. The loop returns the result and
  the sources as the attempts left them.
\<close>

fun walk ::
  "(string \<Rightarrow> attempt) \<Rightarrow> string \<Rightarrow> string \<Rightarrow> PosterSource list
     \<Rightarrow> FallbackResult \<times> PosterSource list" where
  "walk world anime_id anime_name [] =
     (\<lparr> url = None, result_source = ''all_sources_failed'' \<rparr>, [])"
| "walk world anime_id anime_name (s # rest) =
     (if \<not> isAvailable s then
        (case walk world anime_id anime_name rest of (r, rest') \<Rightarrow> (r, s # rest'))
      else
        (case fetchPoster (world (name s)) anime_id anime_name s of
           (Inr found, s1) \<Rightarrow>
             if truthy found then (\<lparr> url = found, result_source = name s1 \<rparr>, s1 # rest)
             else (case walk world anime_id anime_name rest of (r, rest') \<Rightarrow> (r, s1 # rest'))
         | (Inl error, s1) \<Rightarrow>
             (let s2 = (if consecutiveFailures (metrics s1) \<ge> getFailureThreshold
                        then temporarilyDisable (t_done (world (name s))) (30 * 60 * 1000) s1
                        else s1)
              in case walk world anime_id anime_name rest of (r, rest') \<Rightarrow> (r, s2 # rest'))))"

text \<open>
  The sources are objects shared between the map and the ordered array; the model writes
  each source back under its name.
\<close>

definition write_back :: "PosterSource list \<Rightarrow> (string, PosterSource) jsmap \<Rightarrow> (string, PosterSource) jsmap" where
  "write_back ss m = fold (\<lambda>s. map_set (name s) s) ss m"

definition chain_fetchPoster ::
  "(string \<Rightarrow> attempt) \<Rightarrow> string \<Rightarrow> string \<Rightarrow> FallbackChain \<Rightarrow> FallbackResult \<times> FallbackChain" where
  "chain_fetchPoster world anime_id anime_name fc =
     (let orderedSources = getOrderedSources fc in
      if orderedSources = [] then
        (\<lparr> url = None, result_source = ''no_sources_available'' \<rparr>, fc)
      else
        (case walk world anime_id anime_name orderedSources of
           (r, ss) \<Rightarrow> (r, fc\<lparr>sources := write_back ss (sources fc)\<rparr>)))"

section \<open>A successful attempt that finds nothing\<close>

lemma updateAverage_counts:
  "totalRequests (metrics (updateAverageResponseTime rt s)) = totalRequests (metrics s)"
  "successfulRequests (metrics (updateAverageResponseTime rt s)) = successfulRequests (metrics s)"
  "failedRequests (metrics (updateAverageResponseTime rt s)) = failedRequests (metrics s)"
  "consecutiveFailures (metrics (updateAverageResponseTime rt s)) = consecutiveFailures (metrics s)"
  "isTemporarilyDisabled (metrics (updateAverageResponseTime rt s)) = isTemporarilyDisabled (metrics s)"
  "lastError (metrics (updateAverageResponseTime rt s)) = lastError (metrics s)"
  "lastSuccessTime (metrics (updateAverageResponseTime rt s)) = lastSuccessTime (metrics s)"
  "circuitState (updateAverageResponseTime rt s) = circuitState s"
  "nextAttemptTime (updateAverageResponseTime rt s) = nextAttemptTime s"
  "kind (updateAverageResponseTime rt s) = kind s"
  "isEnabled (updateAverageResponseTime rt s) = isEnabled s"
  "failureThreshold (updateAverageResponseTime rt s) = failureThreshold s"
  "disableDuration (updateAverageResponseTime rt s) = disableDuration s"
  "timers (updateAverageResponseTime rt s) = timers s"
  by (simp_all add: updateAverageResponseTime_def Let_def)

lemma recordSuccess_counts:
  "totalRequests (metrics (recordSuccess rt now s)) = totalRequests (metrics s) + 1"
  "successfulRequests (metrics (recordSuccess rt now s)) = successfulRequests (metrics s) + 1"
  "failedRequests (metrics (recordSuccess rt now s)) = failedRequests (metrics s)"
  "consecutiveFailures (metrics (recordSuccess rt now s)) = 0"
  "isTemporarilyDisabled (metrics (recordSuccess rt now s)) = isTemporarilyDisabled (metrics s)"
  "circuitState (recordSuccess rt now s) = circuitState s"
  "nextAttemptTime (recordSuccess rt now s) = nextAttemptTime s"
  by (simp_all add: recordSuccess_def updateAverage_counts)

lemma rateLimit_keeps:
  "metrics (tmdb_waitForRateLimit now sent s) = metrics s"
  "metrics (interval_waitForRateLimit now sent s) = metrics s"
  "circuitState (tmdb_waitForRateLimit now sent s) = circuitState s"
  "circuitState (interval_waitForRateLimit now sent s) = circuitState s"
  "kind (tmdb_waitForRateLimit now sent s) = kind s"
  "kind (interval_waitForRateLimit now sent s) = kind s"
  "nextAttemptTime (tmdb_waitForRateLimit now sent s) = nextAttemptTime s"
  "nextAttemptTime (interval_waitForRateLimit now sent s) = nextAttemptTime s"
  by (simp_all add: tmdb_waitForRateLimit_def interval_waitForRateLimit_def Let_def)

text \<open>The state in which the request function leaves the source when it finds no poster.\<close>

lemma requestFn_not_found:
  assumes "requestFn a s = (Inr found, s1)" and "\<not> truthy found"
  shows "metrics s1 = metrics s \<and> circuitState s1 = circuitState s"
  using assms
  by (auto simp: requestFn_def Let_def rateLimit_keeps split: net_result.splits if_splits)

lemma executeWithMetrics_not_found:
  assumes "executeWithMetrics a s = (Inr found, s')" and "\<not> truthy found"
  shows "successfulRequests (metrics s') = successfulRequests (metrics s) + 1
       \<and> totalRequests (metrics s') = totalRequests (metrics s) + 1
       \<and> consecutiveFailures (metrics s') = 0
       \<and> failedRequests (metrics s') = failedRequests (metrics s)
       \<and> circuitState s' = circuitState s"
proof -
  from assms(1) obtain s1 where r: "requestFn a s = (Inr found, s1)"
    and s': "s' = recordSuccess (t_done a - t_call a) (t_done a) s1"
    by (auto simp: executeWithMetrics_def Let_def split: if_splits prod.splits sum.splits)
  from requestFn_not_found[OF r assms(2)] show ?thesis
    by (simp add: s' recordSuccess_counts)
qed

lemma canMakeRequest_metrics: "metrics (snd (canMakeRequest now s)) = metrics s"
  by (simp add: canMakeRequest_def split: circuit.splits)

lemma fetchPoster_not_found:
  assumes "fetchPoster a anime_id anime_name s = (Inr found, s')" and "\<not> truthy found"
  shows "successfulRequests (metrics s') = successfulRequests (metrics s) + 1
       \<and> totalRequests (metrics s') = totalRequests (metrics s) + 1
       \<and> consecutiveFailures (metrics s') = 0
       \<and> failedRequests (metrics s') = failedRequests (metrics s)"
proof (cases "kind s")
  case Nautiljon
  then show ?thesis using assms executeWithMetrics_not_found[of a s found s']
    by (simp add: fetchPoster_def)
next
  case Kitsu
  obtain b s1 where c: "canMakeRequest (t_call a) s = (b, s1)" by (cases "canMakeRequest (t_call a) s")
  then have m: "metrics s1 = metrics s" using canMakeRequest_metrics[of "t_call a" s] by simp
  from assms(1) Kitsu c have "executeWithMetrics a s1 = (Inr found, s')"
    by (auto simp: fetchPoster_def split: if_splits bool.splits)
  from executeWithMetrics_not_found[OF this assms(2)] m show ?thesis by simp
next
  case TMDB
  obtain b s1 where c: "canMakeRequest (t_call a) s = (b, s1)" by (cases "canMakeRequest (t_call a) s")
  then have m: "metrics s1 = metrics s" using canMakeRequest_metrics[of "t_call a" s] by simp
  from assms(1) TMDB c have "executeWithMetrics a s1 = (Inr found, s')"
    by (auto simp: fetchPoster_def split: if_splits bool.splits)
  from executeWithMetrics_not_found[OF this assms(2)] m show ?thesis by simp
qed

lemma getOrderedSources_sorted: "sorted (map priority (getOrderedSources fc))"
  by (simp add: getOrderedSources_def)

lemma getOrderedSources_enabled: "list_all isEnabled (getOrderedSources fc)"
  by (simp add: getOrderedSources_def list_all_iff)

lemma canMakeRequest_available: "isAvailable (snd (canMakeRequest now s)) = isAvailable s"
  by (simp add: canMakeRequest_def isAvailable_def split: circuit.splits)

lemma executeWithMetrics_Inr_available:
  "executeWithMetrics a s = (Inr found, s') \<Longrightarrow> isAvailable s"
  by (auto simp: executeWithMetrics_def split: if_splits)

lemma fetchPoster_Inr_available:
  assumes "fetchPoster a anime_id anime_name s = (Inr found, s')"
  shows "isAvailable s"
proof (cases "kind s")
  case Nautiljon
  then show ?thesis using assms executeWithMetrics_Inr_available[of a s found s']
    by (simp add: fetchPoster_def)
next
  case Kitsu
  obtain b s1 where c: "canMakeRequest (t_call a) s = (b, s1)" by (cases "canMakeRequest (t_call a) s")
  from assms Kitsu c have "executeWithMetrics a s1 = (Inr found, s')"
    by (auto simp: fetchPoster_def split: if_splits bool.splits)
  then have "isAvailable s1" by (rule executeWithMetrics_Inr_available)
  then show ?thesis using canMakeRequest_available[of "t_call a" s] c by simp
next
  case TMDB
  obtain b s1 where c: "canMakeRequest (t_call a) s = (b, s1)" by (cases "canMakeRequest (t_call a) s")
  from assms TMDB c have "executeWithMetrics a s1 = (Inr found, s')"
    by (auto simp: fetchPoster_def split: if_splits bool.splits)
  then have "isAvailable s1" by (rule executeWithMetrics_Inr_available)
  then show ?thesis using canMakeRequest_available[of "t_call a" s] c by simp
qed

text \<open>
  C6. Let the loop of the fallback chain stand at source \<open>s\<close>, with \<open>rest\<close> still to come,
  and let the attempt on \<open>s\<close> return without error a falsy URL. Then \<open>s\<close> has one more
  successful request, no consecutive failure and as many failed requests as before, and the
  result of the loop is the result of the loop over \<open>rest\<close>, whose sources all have a
  priority number at least that of \<open>s\<close>.
\<close>

theorem not_found_is_success_and_chain_continues:
  assumes "getOrderedSources fc = before @ s # rest"
      and "fetchPoster (world (name s)) anime_id anime_name s = (Inr found, s')"
      and "\<not> truthy found"
  shows "successfulRequests (metrics s') = successfulRequests (metrics s) + 1
       \<and> consecutiveFailures (metrics s') = 0
       \<and> failedRequests (metrics s') = failedRequests (metrics s)
       \<and> walk world anime_id anime_name (s # rest) =
           (case walk world anime_id anime_name rest of (r, rest') \<Rightarrow> (r, s' # rest'))
       \<and> list_all (\<lambda>x. priority s \<le> priority x) rest"
proof -
  have "sorted (map priority (before @ s # rest))"
    using getOrderedSources_sorted[of fc] assms(1) by simp
  then have "list_all (\<lambda>x. priority s \<le> priority x) rest"
    by (auto simp: sorted_append list_all_iff)
  moreover have "isAvailable s" using assms(2) by (rule fetchPoster_Inr_available)
  ultimately show ?thesis
    using assms(2,3) fetchPoster_not_found[OF assms(2,3)] by simp
qed

text \<open>
  An example chain: Kitsu and TMDB with their default settings, TMDB registered first. The
  world answers Kitsu with "no poster" and TMDB with a poster.
\<close>

definition default_config :: source_config where
  "default_config = \<lparr> src_enabled = None, src_timeout = None, src_rateLimit = None,
       src_failureThreshold = None, src_disableDuration = None, src_apiKey = Some ''key'' \<rparr>"

definition digits_only_isNaN :: "string \<Rightarrow> bool" where
  "digits_only_isNaN x = list_ex (\<lambda>c. c \<notin> set ''0123456789'') x"

definition demo_world :: "string \<Rightarrow> attempt" where
  "demo_world n =
     \<lparr> t_call = 5000, t_sent = 5000, t_done = 5040,
       net = (if n = ''kitsu'' then Got None else Got (Some ''https://image.tmdb.org/t/p/w500/p.jpg'')),
       js_isNaN = digits_only_isNaN \<rparr>"

definition demo_chain :: FallbackChain where
  "demo_chain = registerSource (KitsuSource_new default_config)
                  (registerSource (TMDBSource_new None default_config) \<lparr> sources = [] \<rparr>)"

lemma demo_chain_order:
  "getOrderedSources demo_chain = [] @ KitsuSource_new default_config # [TMDBSource_new None default_config]"
  by (simp add: getOrderedSources_def demo_chain_def registerSource_def map_set_def map_has_def
        KitsuSource_new_def TMDBSource_new_def default_config_def truthy_def Let_def)

lemma demo_kitsu_fetch:
  "fst (fetchPoster (demo_world ''kitsu'') ''123'' ''X'' (KitsuSource_new default_config)) = Inr None"
  by (simp add: fetchPoster_def KitsuSource_new_def canMakeRequest_def demo_world_def
        digits_only_isNaN_def executeWithMetrics_def isAvailable_def metrics0_def default_config_def
        requestFn_def Let_def truthy_def interval_waitForRateLimit_def)

theorem not_found_is_success_and_chain_continues_witness:
  "successfulRequests (metrics (snd (fetchPoster (demo_world ''kitsu'') ''123'' ''X'' (KitsuSource_new default_config))))
     = successfulRequests (metrics (KitsuSource_new default_config)) + 1
   \<and> consecutiveFailures (metrics (snd (fetchPoster (demo_world ''kitsu'') ''123'' ''X'' (KitsuSource_new default_config)))) = 0
   \<and> failedRequests (metrics (snd (fetchPoster (demo_world ''kitsu'') ''123'' ''X'' (KitsuSource_new default_config))))
     = failedRequests (metrics (KitsuSource_new default_config))
   \<and> walk demo_world ''123'' ''X'' (KitsuSource_new default_config # [TMDBSource_new None default_config]) =
           (case walk demo_world ''123'' ''X'' [TMDBSource_new None default_config] of
              (r, rest') \<Rightarrow> (r, snd (fetchPoster (demo_world ''kitsu'') ''123'' ''X'' (KitsuSource_new default_config)) # rest'))
   \<and> list_all (\<lambda>x. priority (KitsuSource_new default_config) \<le> priority x) [TMDBSource_new None default_config]"
proof -
  have n: "name (KitsuSource_new default_config) = ''kitsu''"
    by (simp add: KitsuSource_new_def)
  have h2: "fetchPoster (demo_world (name (KitsuSource_new default_config))) ''123'' ''X'' (KitsuSource_new default_config)
            = (Inr None, snd (fetchPoster (demo_world ''kitsu'') ''123'' ''X'' (KitsuSource_new default_config)))"
    using demo_kitsu_fetch by (simp add: n prod_eq_iff)
  have h3: "\<not> truthy None" by (simp add: truthy_def)
  show ?thesis
    using not_found_is_success_and_chain_continues[where world = demo_world, OF demo_chain_order h2 h3] .
qed

section \<open>Which calls reach the request\<close>

text \<open>
  \<open>runs_request\<close> collects the checks that \<open>fetchPoster\<close> and \<open>_executeWithMetrics\<close> make
  before the request function is called: the circuit breaker lets the call through, the
  argument the source needs is there (and, for TMDB, the API key), and the source is
  available. \<open>breaker_checked\<close> is the source as the breaker check leaves it.
\<close>

definition runs_request :: "attempt \<Rightarrow> string \<Rightarrow> string \<Rightarrow> PosterSource \<Rightarrow> bool" where
  "runs_request a anime_id anime_name s =
     (case kind s of
        Nautiljon \<Rightarrow> isAvailable s
      | Kitsu \<Rightarrow> fst (canMakeRequest (t_call a) s) \<and> anime_id \<noteq> [] \<and> \<not> js_isNaN a anime_id
                 \<and> isAvailable s
      | TMDB \<Rightarrow> fst (canMakeRequest (t_call a) s) \<and> anime_name \<noteq> [] \<and> truthy (apiKey s)
                 \<and> isAvailable s)"

definition breaker_checked :: "attempt \<Rightarrow> PosterSource \<Rightarrow> PosterSource" where
  "breaker_checked a s = (if kind s = Nautiljon then s else snd (canMakeRequest (t_call a) s))"

definition is_failure :: "net_result \<Rightarrow> bool" where
  "is_failure r = (case r of Got _ \<Rightarrow> False | _ \<Rightarrow> True)"

definition settle :: "attempt \<Rightarrow> fetch_result \<times> PosterSource \<Rightarrow> fetch_result \<times> PosterSource" where
  "settle a p =
     (case p of
        (Inr result, s1) \<Rightarrow> (Inr result, recordSuccess (t_done a - t_call a) (t_done a) s1)
      | (Inl error, s1) \<Rightarrow> (Inl error, recordFailure error (t_done a - t_call a) (t_done a) s1))"

lemma executeWithMetrics_settle:
  "isAvailable s \<Longrightarrow> executeWithMetrics a s = settle a (requestFn a s)"
  by (simp add: executeWithMetrics_def settle_def Let_def)

lemma canMakeRequest_fields:
  "apiKey (snd (canMakeRequest now s)) = apiKey s"
  "kind (snd (canMakeRequest now s)) = kind s"
  "name (snd (canMakeRequest now s)) = name s"
  by (simp_all add: canMakeRequest_def split: circuit.splits)

lemma fetchPoster_runs:
  assumes "runs_request a anime_id anime_name s"
  shows "fetchPoster a anime_id anime_name s = settle a (requestFn a (breaker_checked a s))"
proof (cases "kind s")
  case Nautiljon
  then show ?thesis using assms
    by (simp add: fetchPoster_def runs_request_def breaker_checked_def executeWithMetrics_settle)
next
  case Kitsu
  obtain b s1 where c: "canMakeRequest (t_call a) s = (b, s1)" by (cases "canMakeRequest (t_call a) s")
  have "isAvailable s1" using assms Kitsu c canMakeRequest_available[of "t_call a" s]
    by (simp add: runs_request_def)
  then show ?thesis using assms Kitsu c
    by (simp add: fetchPoster_def runs_request_def breaker_checked_def executeWithMetrics_settle)
next
  case TMDB
  obtain b s1 where c: "canMakeRequest (t_call a) s = (b, s1)" by (cases "canMakeRequest (t_call a) s")
  have "isAvailable s1" using assms TMDB c canMakeRequest_available[of "t_call a" s]
    by (simp add: runs_request_def)
  moreover have "apiKey s1 = apiKey s" using c canMakeRequest_fields(1)[of "t_call a" s] by simp
  ultimately show ?thesis using assms TMDB c
    by (simp add: fetchPoster_def runs_request_def breaker_checked_def executeWithMetrics_settle)
qed

lemma executeWithMetrics_unavailable:
  "\<not> isAvailable s \<Longrightarrow> executeWithMetrics a s = (Inl (unavailable_error s), s)"
  by (simp add: executeWithMetrics_def)

lemma fetchPoster_rejects:
  assumes "\<not> runs_request a anime_id anime_name s"
  shows "isl (fst (fetchPoster a anime_id anime_name s))
       \<and> snd (fetchPoster a anime_id anime_name s) = breaker_checked a s"
proof (cases "kind s")
  case Nautiljon
  then show ?thesis using assms
    by (simp add: fetchPoster_def runs_request_def breaker_checked_def executeWithMetrics_unavailable)
next
  case Kitsu
  obtain b s1 where c: "canMakeRequest (t_call a) s = (b, s1)" by (cases "canMakeRequest (t_call a) s")
  have av: "isAvailable s1 = isAvailable s" using c canMakeRequest_available[of "t_call a" s] by simp
  show ?thesis using assms Kitsu c av
    by (cases b) (auto simp: fetchPoster_def runs_request_def breaker_checked_def
                     executeWithMetrics_unavailable)
next
  case TMDB
  obtain b s1 where c: "canMakeRequest (t_call a) s = (b, s1)" by (cases "canMakeRequest (t_call a) s")
  have av: "isAvailable s1 = isAvailable s" using c canMakeRequest_available[of "t_call a" s] by simp
  have k: "apiKey s1 = apiKey s" using c canMakeRequest_fields(1)[of "t_call a" s] by simp
  show ?thesis using assms TMDB c av k
    by (cases b) (auto simp: fetchPoster_def runs_request_def breaker_checked_def
                     executeWithMetrics_unavailable)
qed

lemma breaker_checked_eq:
  "breaker_checked a s =
     (if kind s \<noteq> Nautiljon \<and> circuitState s = OPEN \<and> nextAttemptTime s \<le> t_call a
      then s\<lparr>circuitState := HALF_OPEN\<rparr> else s)"
  by (simp add: breaker_checked_def canMakeRequest_def split: circuit.splits)

text \<open>
  C10, amended. When \<open>fetchPoster\<close> rejects on one of these checks, it raises an error and
  the source is left as the breaker check left it: every metrics field, the response-time
  history, the rate-limiter state and the timers are unchanged, and the circuit state is
  unchanged except that an open circuit whose \<open>nextAttemptTime\<close> has been reached has moved
  to \<open>HALF_OPEN\<close>.
\<close>

theorem precondition_rejection_leaves_metrics:
  assumes "\<not> runs_request a anime_id anime_name s"
  shows "isl (fst (fetchPoster a anime_id anime_name s))
       \<and> metrics (snd (fetchPoster a anime_id anime_name s)) = metrics s
       \<and> snd (fetchPoster a anime_id anime_name s) =
           (if kind s \<noteq> Nautiljon \<and> circuitState s = OPEN \<and> nextAttemptTime s \<le> t_call a
            then s\<lparr>circuitState := HALF_OPEN\<rparr> else s)"
  using fetchPoster_rejects[OF assms] by (simp add: breaker_checked_eq)

text \<open>
  A Kitsu source whose circuit was opened at time 0 for 1000 ms (\<open>openCircuitBreaker\<close>),
  asked at time 2000 for the poster of the id \<open>abc\<close>.
\<close>

definition opened_kitsu :: PosterSource where
  "opened_kitsu = openCircuitBreaker 0 1000 (KitsuSource_new default_config)"

definition late_call :: attempt where
  "late_call = \<lparr> t_call = 2000, t_sent = 2000, t_done = 2040, net = Got (Some ''u''),
                 js_isNaN = digits_only_isNaN \<rparr>"

lemma opened_kitsu_fields:
  "kind opened_kitsu = Kitsu" "circuitState opened_kitsu = OPEN"
  "nextAttemptTime opened_kitsu = 1000" "name opened_kitsu = ''kitsu''"
  "isTemporarilyDisabled (metrics opened_kitsu)"
  by (simp_all add: opened_kitsu_def openCircuitBreaker_def KitsuSource_new_def)

lemma late_call_rejected: "\<not> runs_request late_call ''abc'' ''X'' opened_kitsu"
  by (simp add: runs_request_def opened_kitsu_fields late_call_def digits_only_isNaN_def)

theorem precondition_rejection_leaves_metrics_witness:
  "isl (fst (fetchPoster late_call ''abc'' ''X'' opened_kitsu))
   \<and> metrics (snd (fetchPoster late_call ''abc'' ''X'' opened_kitsu)) = metrics opened_kitsu
   \<and> snd (fetchPoster late_call ''abc'' ''X'' opened_kitsu) = opened_kitsu\<lparr>circuitState := HALF_OPEN\<rparr>"
  using precondition_rejection_leaves_metrics[OF late_call_rejected]
  by (simp add: opened_kitsu_fields late_call_def)

text \<open>
  C10 as stated fails there: the call is rejected for its invalid id, before the request
  function, and yet the circuit state has changed from \<open>OPEN\<close> to \<open>HALF_OPEN\<close>.
\<close>

theorem precondition_rejection_counterexample:
  "fst (fetchPoster late_call ''abc'' ''X'' opened_kitsu) = Inl (new_Error ''ID anime invalide pour Kitsu'')
   \<and> circuitState opened_kitsu = OPEN
   \<and> circuitState (snd (fetchPoster late_call ''abc'' ''X'' opened_kitsu)) = HALF_OPEN"
  by (simp add: fetchPoster_def opened_kitsu_fields canMakeRequest_def late_call_def
        digits_only_isNaN_def)

section \<open>The steps of the circuit breaker\<close>

text \<open>The rate limiter touches nothing the breaker reads.\<close>

definition limited :: "attempt \<Rightarrow> PosterSource \<Rightarrow> PosterSource" where
  "limited a s = (if kind s = TMDB then tmdb_waitForRateLimit (t_call a) (t_sent a) s
                  else interval_waitForRateLimit (t_call a) (t_sent a) s)"

lemma limited_fields:
  "metrics (limited a s) = metrics s"
  "circuitState (limited a s) = circuitState s"
  "kind (limited a s) = kind s"
  "nextAttemptTime (limited a s) = nextAttemptTime s"
  "failureThreshold (limited a s) = failureThreshold s"
  "disableDuration (limited a s) = disableDuration s"
  by (simp_all add: limited_def tmdb_waitForRateLimit_def interval_waitForRateLimit_def Let_def)

lemma requestFn_failure:
  "is_failure (net a) \<Longrightarrow> \<exists>e. requestFn a s = (Inl e, limited a s)"
  by (cases "net a") (simp_all add: requestFn_def limited_def is_failure_def Let_def)

lemma requestFn_found:
  "net a = Got (Some u) \<Longrightarrow> u \<noteq> [] \<Longrightarrow> kind s \<noteq> Nautiljon
     \<Longrightarrow> requestFn a s = (Inr (Some u), onSuccess (limited a s))"
  by (simp add: requestFn_def limited_def truthy_def Let_def)

lemma base_recordFailure_fields:
  "consecutiveFailures (metrics (base_recordFailure e rt s)) = consecutiveFailures (metrics s) + 1"
  "circuitState (base_recordFailure e rt s) = circuitState s"
  "kind (base_recordFailure e rt s) = kind s"
  "failureThreshold (base_recordFailure e rt s) = failureThreshold s"
  "disableDuration (base_recordFailure e rt s) = disableDuration s"
  by (simp_all add: base_recordFailure_def Let_def updateAverage_counts)

lemma onFailure_opens:
  assumes "circuitState s = HALF_OPEN \<or> consecutiveFailures (metrics s) \<ge> failureThreshold s"
  shows "circuitState (onFailure now s) = OPEN
       \<and> nextAttemptTime (onFailure now s) = now + disableDuration s
       \<and> isTemporarilyDisabled (metrics (onFailure now s))"
  using assms by (auto simp: onFailure_def)

lemma recordFailure_opens:
  assumes "kind s \<noteq> Nautiljon"
      and "circuitState s = HALF_OPEN \<or> consecutiveFailures (metrics s) + 1 \<ge> failureThreshold s"
  shows "circuitState (recordFailure e rt now s) = OPEN
       \<and> nextAttemptTime (recordFailure e rt now s) = now + disableDuration s
       \<and> isTemporarilyDisabled (metrics (recordFailure e rt now s))"
proof -
  let ?b = "base_recordFailure e rt s"
  have "circuitState ?b = HALF_OPEN \<or> consecutiveFailures (metrics ?b) \<ge> failureThreshold ?b"
    using assms(2) by (simp add: base_recordFailure_fields)
  from onFailure_opens[OF this, of now] show ?thesis
    using assms(1) by (simp add: recordFailure_def Let_def base_recordFailure_fields)
qed

text \<open>A failed attempt on a closed or half-open circuit that must open it.\<close>

lemma failure_opens:
  assumes "kind s \<noteq> Nautiljon"
      and "runs_request a anime_id anime_name s"
      and "is_failure (net a)"
      and "circuitState s = HALF_OPEN
           \<or> (circuitState s = CLOSED \<and> consecutiveFailures (metrics s) + 1 \<ge> failureThreshold s)"
  shows "isl (fst (fetchPoster a anime_id anime_name s))
       \<and> circuitState (snd (fetchPoster a anime_id anime_name s)) = OPEN
       \<and> nextAttemptTime (snd (fetchPoster a anime_id anime_name s)) = t_done a + disableDuration s
       \<and> isTemporarilyDisabled (metrics (snd (fetchPoster a anime_id anime_name s)))"
proof -
  have bc: "breaker_checked a s = s" using assms(4) by (auto simp: breaker_checked_eq)
  obtain e where r: "requestFn a s = (Inl e, limited a s)"
    using requestFn_failure[OF assms(3)] by blast
  have f: "fetchPoster a anime_id anime_name s =
             (Inl e, recordFailure e (t_done a - t_call a) (t_done a) (limited a s))"
    using fetchPoster_runs[OF assms(2)] bc r by (simp add: settle_def)
  have "circuitState (limited a s) = HALF_OPEN
        \<or> consecutiveFailures (metrics (limited a s)) + 1 \<ge> failureThreshold (limited a s)"
    using assms(4) by (auto simp: limited_fields)
  from recordFailure_opens[OF _ this, of e "t_done a - t_call a" "t_done a"] assms(1)
  show ?thesis by (simp add: f limited_fields)
qed

text \<open>A probe on a half-open circuit that finds a poster.\<close>

lemma half_open_found_closes:
  assumes "kind s \<noteq> Nautiljon"
      and "circuitState s = HALF_OPEN"
      and "runs_request a anime_id anime_name s"
      and "net a = Got (Some u)" and "u \<noteq> []"
  shows "fst (fetchPoster a anime_id anime_name s) = Inr (Some u)
       \<and> circuitState (snd (fetchPoster a anime_id anime_name s)) = CLOSED
       \<and> consecutiveFailures (metrics (snd (fetchPoster a anime_id anime_name s))) = 0
       \<and> \<not> isTemporarilyDisabled (metrics (snd (fetchPoster a anime_id anime_name s)))"
proof -
  have bc: "breaker_checked a s = s" using assms(2) by (simp add: breaker_checked_eq)
  have f: "fetchPoster a anime_id anime_name s =
             (Inr (Some u), recordSuccess (t_done a - t_call a) (t_done a) (onSuccess (limited a s)))"
    using fetchPoster_runs[OF assms(3)] bc requestFn_found[OF assms(4,5,1)]
    by (simp add: settle_def)
  have "circuitState (onSuccess (limited a s)) = CLOSED"
    and "\<not> isTemporarilyDisabled (metrics (onSuccess (limited a s)))"
    using assms(2) by (simp_all add: onSuccess_def limited_fields)
  then show ?thesis by (simp add: f recordSuccess_counts)
qed

text \<open>
  A probe on a half-open circuit that succeeds without a poster: \<open>_onSuccess()\<close> is not
  called, and \<open>_recordSuccess\<close> does not touch the circuit.
\<close>

lemma requestFn_nothing:
  "net a = Got found \<Longrightarrow> \<not> truthy found \<Longrightarrow> kind s \<noteq> Nautiljon
     \<Longrightarrow> requestFn a s = (Inr None, limited a s)"
  by (simp add: requestFn_def limited_def Let_def)

lemma half_open_nothing_stays:
  assumes "kind s \<noteq> Nautiljon"
      and "circuitState s = HALF_OPEN"
      and "runs_request a anime_id anime_name s"
      and "net a = Got found" and "\<not> truthy found"
  shows "fst (fetchPoster a anime_id anime_name s) = Inr None
       \<and> circuitState (snd (fetchPoster a anime_id anime_name s)) = HALF_OPEN
       \<and> successfulRequests (metrics (snd (fetchPoster a anime_id anime_name s)))
           = successfulRequests (metrics s) + 1
       \<and> isTemporarilyDisabled (metrics (snd (fetchPoster a anime_id anime_name s)))
           = isTemporarilyDisabled (metrics s)
       \<and> nextAttemptTime (snd (fetchPoster a anime_id anime_name s)) = nextAttemptTime s"
proof -
  have bc: "breaker_checked a s = s" using assms(2) by (simp add: breaker_checked_eq)
  have f: "fetchPoster a anime_id anime_name s =
             (Inr None, recordSuccess (t_done a - t_call a) (t_done a) (limited a s))"
    using fetchPoster_runs[OF assms(3)] bc requestFn_nothing[OF assms(4,5,1)]
    by (simp add: settle_def)
  show ?thesis using assms(2) by (simp add: f recordSuccess_counts limited_fields)
qed

text \<open>An open circuit before its next attempt time: the call is rejected and nothing changes.\<close>

lemma open_rejects:
  assumes "kind s \<noteq> Nautiljon" and "circuitState s = OPEN" and "t_call a < nextAttemptTime s"
  shows "fetchPoster a anime_id anime_name s = (Inl (circuit_open_error s), s)"
  using assms by (cases "kind s") (simp_all add: fetchPoster_def canMakeRequest_def)

lemma open_due_half_opens:
  assumes "circuitState s = OPEN" and "nextAttemptTime s \<le> now"
  shows "canMakeRequest now s = (True, s\<lparr>circuitState := HALF_OPEN\<rparr>)"
  using assms by (simp add: canMakeRequest_def)

text \<open>
  C3, amended. The six steps of the breaker of Kitsu and TMDB, each on a source of its own.
  \<^item> \<open>c\<close>, closed: a failed attempt that brings \<open>consecutiveFailures\<close> to the threshold opens
    the circuit, sets \<open>nextAttemptTime\<close> to the time of the failure plus \<open>disableDuration\<close>
    and marks the source temporarily disabled.
  \<^item> \<open>p\<close>, open, called before \<open>nextAttemptTime\<close>: the call is rejected with the
    circuit-breaker error whatever the network would have answered, and \<open>p\<close> is unchanged.
  \<^item> \<open>q\<close>, open, checked at or after \<open>nextAttemptTime\<close>: the breaker check answers yes and
    moves the circuit to \<open>HALF_OPEN\<close>.
  \<^item> \<open>h\<close>, half-open: an attempt that finds a poster URL closes the circuit, with
    \<open>consecutiveFailures\<close> 0 and the disabled flag cleared.
  \<^item> \<open>g\<close>, half-open: a failed attempt reopens the circuit at once, with a fresh
    \<open>nextAttemptTime\<close>.
  \<^item> \<open>z\<close>, half-open: an attempt that succeeds without a poster URL (\<open>null\<close> or the empty
    string) is counted as a success and leaves the circuit half-open, the disabled flag and
    \<open>nextAttemptTime\<close> as they were.
\<close>

theorem circuit_breaker_steps:
  assumes closed: "kind c \<noteq> Nautiljon" "circuitState c = CLOSED" "runs_request ac ic nc c"
                  "is_failure (net ac)"
                  "consecutiveFailures (metrics c) + 1 \<ge> failureThreshold c"
      and opened: "kind p \<noteq> Nautiljon" "circuitState p = OPEN" "t_call ap < nextAttemptTime p"
      and due: "circuitState q = OPEN" "nextAttemptTime q \<le> now"
      and probe_found: "kind h \<noteq> Nautiljon" "circuitState h = HALF_OPEN" "runs_request ah ih nh h"
                  "net ah = Got (Some u)" "u \<noteq> []"
      and probe_failed: "kind g \<noteq> Nautiljon" "circuitState g = HALF_OPEN" "runs_request ag ig ng g"
                  "is_failure (net ag)"
      and probe_nothing: "kind z \<noteq> Nautiljon" "circuitState z = HALF_OPEN" "runs_request az iz nz z"
                  "net az = Got found" "\<not> truthy found"
  shows "(circuitState (snd (fetchPoster ac ic nc c)) = OPEN
          \<and> nextAttemptTime (snd (fetchPoster ac ic nc c)) = t_done ac + disableDuration c
          \<and> isTemporarilyDisabled (metrics (snd (fetchPoster ac ic nc c))))
       \<and> fetchPoster ap ip np p = (Inl (circuit_open_error p), p)
       \<and> canMakeRequest now q = (True, q\<lparr>circuitState := HALF_OPEN\<rparr>)
       \<and> (fst (fetchPoster ah ih nh h) = Inr (Some u)
          \<and> circuitState (snd (fetchPoster ah ih nh h)) = CLOSED
          \<and> consecutiveFailures (metrics (snd (fetchPoster ah ih nh h))) = 0
          \<and> \<not> isTemporarilyDisabled (metrics (snd (fetchPoster ah ih nh h))))
       \<and> (circuitState (snd (fetchPoster ag ig ng g)) = OPEN
          \<and> nextAttemptTime (snd (fetchPoster ag ig ng g)) = t_done ag + disableDuration g
          \<and> isTemporarilyDisabled (metrics (snd (fetchPoster ag ig ng g))))
       \<and> (fst (fetchPoster az iz nz z) = Inr None
          \<and> circuitState (snd (fetchPoster az iz nz z)) = HALF_OPEN
          \<and> successfulRequests (metrics (snd (fetchPoster az iz nz z)))
              = successfulRequests (metrics z) + 1
          \<and> isTemporarilyDisabled (metrics (snd (fetchPoster az iz nz z)))
              = isTemporarilyDisabled (metrics z)
          \<and> nextAttemptTime (snd (fetchPoster az iz nz z)) = nextAttemptTime z)"
proof -
  have 1: "circuitState (snd (fetchPoster ac ic nc c)) = OPEN
          \<and> nextAttemptTime (snd (fetchPoster ac ic nc c)) = t_done ac + disableDuration c
          \<and> isTemporarilyDisabled (metrics (snd (fetchPoster ac ic nc c)))"
    using failure_opens[OF closed(1,3,4)] closed(2,5) by simp
  have 2: "fetchPoster ap ip np p = (Inl (circuit_open_error p), p)"
    using opened by (rule open_rejects)
  have 3: "canMakeRequest now q = (True, q\<lparr>circuitState := HALF_OPEN\<rparr>)"
    using due by (rule open_due_half_opens)
  have 4: "fst (fetchPoster ah ih nh h) = Inr (Some u)
          \<and> circuitState (snd (fetchPoster ah ih nh h)) = CLOSED
          \<and> consecutiveFailures (metrics (snd (fetchPoster ah ih nh h))) = 0
          \<and> \<not> isTemporarilyDisabled (metrics (snd (fetchPoster ah ih nh h)))"
    using probe_found by (rule half_open_found_closes)
  have 5: "circuitState (snd (fetchPoster ag ig ng g)) = OPEN
          \<and> nextAttemptTime (snd (fetchPoster ag ig ng g)) = t_done ag + disableDuration g
          \<and> isTemporarilyDisabled (metrics (snd (fetchPoster ag ig ng g)))"
    using failure_opens[OF probe_failed(1,3,4)] probe_failed(2) by simp
  have 6: "fst (fetchPoster az iz nz z) = Inr None
          \<and> circuitState (snd (fetchPoster az iz nz z)) = HALF_OPEN
          \<and> successfulRequests (metrics (snd (fetchPoster az iz nz z)))
              = successfulRequests (metrics z) + 1
          \<and> isTemporarilyDisabled (metrics (snd (fetchPoster az iz nz z)))
              = isTemporarilyDisabled (metrics z)
          \<and> nextAttemptTime (snd (fetchPoster az iz nz z)) = nextAttemptTime z"
    using probe_nothing by (rule half_open_nothing_stays)
  from 1 2 3 4 5 6 show ?thesis by blast
qed


text \<open>
  The sources of the example: a Kitsu source with a failure threshold of 1; the source
  \<open>opened_kitsu\<close> above; and that source once re-enabled by \<open>setEnabled(true)\<close> (which
  clears the disabled flag) and checked by the breaker at time 2000, hence half-open.
\<close>

definition strict_kitsu :: PosterSource where
  "strict_kitsu = KitsuSource_new (default_config\<lparr>src_failureThreshold := Some 1\<rparr>)"

definition probe_kitsu :: PosterSource where
  "probe_kitsu = snd (canMakeRequest 2000 (setEnabled True opened_kitsu))"

definition failing_call :: attempt where
  "failing_call = \<lparr> t_call = 100, t_sent = 100, t_done = 150, net = Threw ''Network error'',
                    js_isNaN = digits_only_isNaN \<rparr>"

definition early_call :: attempt where
  "early_call = \<lparr> t_call = 500, t_sent = 500, t_done = 540, net = Got (Some ''u''),
                  js_isNaN = digits_only_isNaN \<rparr>"

lemma strict_kitsu_fields:
  "kind strict_kitsu = Kitsu" "circuitState strict_kitsu = CLOSED"
  "failureThreshold strict_kitsu = 1" "consecutiveFailures (metrics strict_kitsu) = 0"
  "disableDuration strict_kitsu = 1800000" "isAvailable strict_kitsu"
  by (simp_all add: strict_kitsu_def KitsuSource_new_def default_config_def js_or_def metrics0_def
        isAvailable_def)

lemma probe_kitsu_fields:
  "kind probe_kitsu = Kitsu" "circuitState probe_kitsu = HALF_OPEN"
  "disableDuration probe_kitsu = 1800000" "isAvailable probe_kitsu"
  "successfulRequests (metrics probe_kitsu) = 0" "nextAttemptTime probe_kitsu = 1000"
  "\<not> isTemporarilyDisabled (metrics probe_kitsu)"
  by (simp_all add: probe_kitsu_def canMakeRequest_def setEnabled_def opened_kitsu_def
        openCircuitBreaker_def KitsuSource_new_def default_config_def js_or_def isAvailable_def Let_def
        metrics0_def)

lemma demo_runs:
  "runs_request failing_call ''123'' ''X'' strict_kitsu"
  "runs_request late_call ''123'' ''X'' probe_kitsu"
  "runs_request (late_call\<lparr>net := TimedOut\<rparr>) ''123'' ''X'' probe_kitsu"
  "runs_request (late_call\<lparr>net := Got None\<rparr>) ''123'' ''X'' probe_kitsu"
  "runs_request (late_call\<lparr>net := Got (Some [])\<rparr>) ''123'' ''X'' probe_kitsu"
  by (simp_all add: runs_request_def strict_kitsu_fields probe_kitsu_fields canMakeRequest_def
        failing_call_def late_call_def digits_only_isNaN_def)

theorem circuit_breaker_steps_witness:
  "(circuitState (snd (fetchPoster failing_call ''123'' ''X'' strict_kitsu)) = OPEN
    \<and> nextAttemptTime (snd (fetchPoster failing_call ''123'' ''X'' strict_kitsu)) = 150 + 1800000
    \<and> isTemporarilyDisabled (metrics (snd (fetchPoster failing_call ''123'' ''X'' strict_kitsu))))
   \<and> fetchPoster early_call ''123'' ''X'' opened_kitsu = (Inl (circuit_open_error opened_kitsu), opened_kitsu)
   \<and> canMakeRequest 1000 opened_kitsu = (True, opened_kitsu\<lparr>circuitState := HALF_OPEN\<rparr>)
   \<and> (fst (fetchPoster late_call ''123'' ''X'' probe_kitsu) = Inr (Some ''u'')
      \<and> circuitState (snd (fetchPoster late_call ''123'' ''X'' probe_kitsu)) = CLOSED
      \<and> consecutiveFailures (metrics (snd (fetchPoster late_call ''123'' ''X'' probe_kitsu))) = 0
      \<and> \<not> isTemporarilyDisabled (metrics (snd (fetchPoster late_call ''123'' ''X'' probe_kitsu))))
   \<and> (circuitState (snd (fetchPoster (late_call\<lparr>net := TimedOut\<rparr>) ''123'' ''X'' probe_kitsu)) = OPEN
      \<and> nextAttemptTime (snd (fetchPoster (late_call\<lparr>net := TimedOut\<rparr>) ''123'' ''X'' probe_kitsu)) = 2040 + 1800000
      \<and> isTemporarilyDisabled (metrics (snd (fetchPoster (late_call\<lparr>net := TimedOut\<rparr>) ''123'' ''X'' probe_kitsu))))
   \<and> (fst (fetchPoster (late_call\<lparr>net := Got (Some [])\<rparr>) ''123'' ''X'' probe_kitsu) = Inr None
      \<and> circuitState (snd (fetchPoster (late_call\<lparr>net := Got (Some [])\<rparr>) ''123'' ''X'' probe_kitsu)) = HALF_OPEN
      \<and> successfulRequests (metrics (snd (fetchPoster (late_call\<lparr>net := Got (Some [])\<rparr>) ''123'' ''X'' probe_kitsu))) = 1
      \<and> \<not> isTemporarilyDisabled (metrics (snd (fetchPoster (late_call\<lparr>net := Got (Some [])\<rparr>) ''123'' ''X'' probe_kitsu)))
      \<and> nextAttemptTime (snd (fetchPoster (late_call\<lparr>net := Got (Some [])\<rparr>) ''123'' ''X'' probe_kitsu)) = 1000)"
proof -
  have f1: "is_failure (net failing_call)" by (simp add: is_failure_def failing_call_def)
  have f5: "is_failure (net (late_call\<lparr>net := TimedOut\<rparr>))" by (simp add: is_failure_def)
  have t1: "consecutiveFailures (metrics strict_kitsu) + 1 \<ge> failureThreshold strict_kitsu"
    by (simp add: strict_kitsu_fields)
  have t2: "t_call early_call < nextAttemptTime opened_kitsu"
    by (simp add: early_call_def opened_kitsu_fields)
  have t3: "nextAttemptTime opened_kitsu \<le> 1000" by (simp add: opened_kitsu_fields)
  have n4: "net late_call = Got (Some ''u'')" "''u'' \<noteq> []" by (simp_all add: late_call_def)
  have n6: "net (late_call\<lparr>net := Got (Some [])\<rparr>) = Got (Some [])" "\<not> truthy (Some [])"
    by (simp_all add: truthy_def)
  have k: "kind strict_kitsu \<noteq> Nautiljon" "kind opened_kitsu \<noteq> Nautiljon" "kind probe_kitsu \<noteq> Nautiljon"
    by (simp_all add: strict_kitsu_fields opened_kitsu_fields probe_kitsu_fields)
  show ?thesis
    using circuit_breaker_steps[where c = strict_kitsu and ac = failing_call and p = opened_kitsu
        and ap = early_call and q = opened_kitsu and now = 1000 and h = probe_kitsu and ah = late_call
        and g = probe_kitsu and ag = "late_call\<lparr>net := TimedOut\<rparr>" and ip = "''123''" and np = "''X''"
        and z = probe_kitsu and az = "late_call\<lparr>net := Got (Some [])\<rparr>",
        OF k(1) strict_kitsu_fields(2) demo_runs(1) f1 t1 k(2) opened_kitsu_fields(2) t2
           opened_kitsu_fields(2) t3 k(3) probe_kitsu_fields(2) demo_runs(2) n4 k(3)
           probe_kitsu_fields(2) demo_runs(3) f5 k(3) probe_kitsu_fields(2) demo_runs(5) n6]
    by (simp add: failing_call_def late_call_def strict_kitsu_fields probe_kitsu_fields)
qed

text \<open>
  C3 as stated fails on the half-open source: an attempt that succeeds without finding a
  poster (counted as a success: \<open>successfulRequests\<close> goes from 0 to 1) leaves the circuit
  half-open.
\<close>

theorem half_open_success_counterexample:
  "circuitState probe_kitsu = HALF_OPEN
   \<and> fst (fetchPoster (late_call\<lparr>net := Got None\<rparr>) ''123'' ''X'' probe_kitsu) = Inr None
   \<and> successfulRequests (metrics probe_kitsu) = 0
   \<and> successfulRequests (metrics (snd (fetchPoster (late_call\<lparr>net := Got None\<rparr>) ''123'' ''X'' probe_kitsu))) = 1
   \<and> circuitState (snd (fetchPoster (late_call\<lparr>net := Got None\<rparr>) ''123'' ''X'' probe_kitsu)) = HALF_OPEN"
proof -
  have bc: "breaker_checked (late_call\<lparr>net := Got None\<rparr>) probe_kitsu = probe_kitsu"
    by (simp add: breaker_checked_eq probe_kitsu_fields)
  have r: "requestFn (late_call\<lparr>net := Got None\<rparr>) probe_kitsu
           = (Inr None, limited (late_call\<lparr>net := Got None\<rparr>) probe_kitsu)"
    by (simp add: requestFn_def limited_def probe_kitsu_fields truthy_def Let_def)
  have f: "fetchPoster (late_call\<lparr>net := Got None\<rparr>) ''123'' ''X'' probe_kitsu =
      (Inr None, recordSuccess 40 2040 (limited (late_call\<lparr>net := Got None\<rparr>) probe_kitsu))"
    using fetchPoster_runs[OF demo_runs(4)] bc r by (simp add: settle_def late_call_def)
  have z: "successfulRequests (metrics probe_kitsu) = 0"
    by (simp add: probe_kitsu_def canMakeRequest_def setEnabled_def opened_kitsu_def
          openCircuitBreaker_def KitsuSource_new_def metrics0_def Let_def)
  show ?thesis
    by (simp add: f recordSuccess_counts limited_fields probe_kitsu_fields z)
qed

section \<open>The rate limiters against the sliding window\<close>
























section \<open>MetricsCollector\<close>

record source_usage =
  success :: int
  failure :: int

text \<open>
  \<open>this.metrics\<close> of the collector. \<open>sourceUsage\<close> and \<open>errorTypes\<close> are plain objects used
  as maps from names to counters; the association lists hold the properties of their own.
  Nothing modelled here reads the order of these properties.
\<close>

record GlobalMetrics =
  g_totalRequests :: int
  g_successfulRequests :: int
  g_failedRequests :: int
  cacheHits :: int
  cacheMisses :: int
  g_averageResponseTime :: rat
  sourceUsage :: "(string, source_usage) jsmap"
  errorTypes :: "(string, jsnum) jsmap"
  startTime :: int

record MetricsCollector =
  gmetrics :: GlobalMetrics
  g_responseTimes :: "int list"

definition metrics_at :: "int \<Rightarrow> GlobalMetrics" where
  "metrics_at now =
     \<lparr> g_totalRequests = 0, g_successfulRequests = 0, g_failedRequests = 0, cacheHits = 0,
       cacheMisses = 0, g_averageResponseTime = 0, sourceUsage = [], errorTypes = [],
       startTime = now \<rparr>"

text \<open>The constructor and \<open>reset()\<close>, with \<open>Date.now()\<close> reading \<open>now\<close>.\<close>

definition MetricsCollector_new :: "int \<Rightarrow> MetricsCollector" where
  "MetricsCollector_new now = \<lparr> gmetrics = metrics_at now, g_responseTimes = [] \<rparr>"

definition reset :: "int \<Rightarrow> MetricsCollector \<Rightarrow> MetricsCollector" where
  "reset now m = \<lparr> gmetrics = metrics_at now, g_responseTimes = [] \<rparr>"

definition recordCacheHit :: "MetricsCollector \<Rightarrow> MetricsCollector" where
  "recordCacheHit m = m\<lparr>gmetrics := (gmetrics m)\<lparr>cacheHits := cacheHits (gmetrics m) + 1\<rparr>\<rparr>"

definition recordCacheMiss :: "MetricsCollector \<Rightarrow> MetricsCollector" where
  "recordCacheMiss m = m\<lparr>gmetrics := (gmetrics m)\<lparr>cacheMisses := cacheMisses (gmetrics m) + 1\<rparr>\<rparr>"

definition g_updateAverageResponseTime :: "int \<Rightarrow> MetricsCollector \<Rightarrow> MetricsCollector" where
  "g_updateAverageResponseTime responseTime m =
     (let pushed = g_responseTimes m @ [responseTime];
          kept = (if length pushed > 1000 then tl pushed else pushed)
      in m\<lparr>g_responseTimes := kept,
           gmetrics := (gmetrics m)\<lparr>g_averageResponseTime :=
                          of_int (sum_list kept) / of_int (int (length kept))\<rparr>\<rparr>)"

text \<open>
  A plain object inherits the properties of \<open>Object.prototype\<close>. Read under one of these
  names, an object with no such property of its own gives a function (under \<open>__proto__\<close>,
  the prototype object): a truthy value, which \<open>++\<close> turns into \<open>NaN\<close>. Written under one of
  these names, the object gets a property of its own, except under \<open>__proto__\<close>, whose setter
  ignores a number.
\<close>

definition inherited_names :: "string list" where
  "inherited_names =
     [''constructor'', ''hasOwnProperty'', ''isPrototypeOf'', ''propertyIsEnumerable'',
      ''toLocaleString'', ''toString'', ''valueOf'', ''__defineGetter__'', ''__defineSetter__'',
      ''__lookupGetter__'', ''__lookupSetter__'', ''__proto__'']"

definition js_falsy :: "jsnum \<Rightarrow> bool" where
  "js_falsy v = (v = Finite 0 \<or> v = NaN)"

definition js_incr :: "jsnum \<Rightarrow> jsnum" where
  "js_incr v = (case v of Finite x \<Rightarrow> Finite (x + 1) | Infinity \<Rightarrow> Infinity | NaN \<Rightarrow> NaN)"

text \<open>
  \<open>if (!errorTypes[errorType]) errorTypes[errorType] = 0; errorTypes[errorType]++\<close>.
\<close>

definition count_errorType :: "string \<Rightarrow> (string, jsnum) jsmap \<Rightarrow> (string, jsnum) jsmap" where
  "count_errorType errorType errs =
     (case map_of errs errorType of
        Some v \<Rightarrow> map_set errorType (js_incr (if js_falsy v then Finite 0 else v)) errs
      | None \<Rightarrow>
          if errorType \<in> set inherited_names then
            (if errorType = ''__proto__'' then errs else map_set errorType NaN errs)
          else map_set errorType (Finite 1) errs)"

text \<open>
  \<open>if (!usage[source]) usage[source] = {success: 0, failure: 0}\<close>, then \<open>bump\<close> is the
  increment of \<open>usage[source].success\<close> or of \<open>usage[source].failure\<close>. Under an inherited
  name with no property of its own the increment lands on the inherited object, and \<open>usage\<close>
  is unchanged.
\<close>

definition count_usage ::
  "(source_usage \<Rightarrow> source_usage) \<Rightarrow> string \<Rightarrow> (string, source_usage) jsmap
     \<Rightarrow> (string, source_usage) jsmap" where
  "count_usage bump src u =
     (case map_of u src of
        Some x \<Rightarrow> map_set src (bump x) u
      | None \<Rightarrow>
          if src \<in> set inherited_names then u
          else map_set src (bump \<lparr> success = 0, failure = 0 \<rparr>) u)"

definition g_recordSuccess :: "string \<Rightarrow> int \<Rightarrow> MetricsCollector \<Rightarrow> MetricsCollector" where
  "g_recordSuccess src responseTime m =
     (let g = gmetrics m;
          m1 = m\<lparr>gmetrics := g\<lparr>g_totalRequests := g_totalRequests g + 1,
                                g_successfulRequests := g_successfulRequests g + 1,
                                sourceUsage := count_usage (\<lambda>x. x\<lparr>success := success x + 1\<rparr>) src
                                                 (sourceUsage g)\<rparr>\<rparr>
      in if responseTime > 0 then g_updateAverageResponseTime responseTime m1 else m1)"

definition g_recordFailure :: "string \<Rightarrow> string option \<Rightarrow> MetricsCollector \<Rightarrow> MetricsCollector" where
  "g_recordFailure errorType src m =
     (let g = gmetrics m;
          g1 = g\<lparr>g_totalRequests := g_totalRequests g + 1,
                 g_failedRequests := g_failedRequests g + 1,
                 errorTypes := count_errorType errorType (errorTypes g)\<rparr>
      in case src of
           None \<Rightarrow> m\<lparr>gmetrics := g1\<rparr>
         | Some s \<Rightarrow>
             if s = [] then m\<lparr>gmetrics := g1\<rparr>
             else m\<lparr>gmetrics := g1\<lparr>sourceUsage :=
                                     count_usage (\<lambda>x. x\<lparr>failure := failure x + 1\<rparr>) s
                                       (sourceUsage g1)\<rparr>\<rparr>)"

text \<open>\<open>recordError(error)\<close>: \<open>recordFailure(error.name || 'UnknownError')\<close>.\<close>

definition recordError :: "js_error \<Rightarrow> MetricsCollector \<Rightarrow> MetricsCollector" where
  "recordError error m =
     g_recordFailure (if err_name error = [] then ''UnknownError'' else err_name error) None m"

text \<open>
  \<open>getStats()\<close> with \<open>Date.now()\<close> reading \<open>now\<close>: the metrics (\<open>...this.metrics\<close>, here the
  field \<open>counted\<close>) and four derived numbers.
  The counters are never negative (they start at 0 and only grow), so a division by a
  zero \<open>uptime\<close> is \<open>Infinity\<close>, or \<open>NaN\<close> turned into 0 by \<open>|| 0\<close> when nothing was counted.
\<close>

record GlobalStats =
  counted :: GlobalMetrics
  uptime :: int
  successRate :: rat
  cacheHitRate :: rat
  requestsPerMinute :: jsnum

definition requests_per_minute :: "int \<Rightarrow> int \<Rightarrow> jsnum" where
  "requests_per_minute n up =
     (if up = 0 then (if n = 0 then Finite 0 else Infinity)
      else Finite (of_int n / (of_int up / 60000)))"

definition getStats :: "int \<Rightarrow> MetricsCollector \<Rightarrow> GlobalStats" where
  "getStats now m =
     (let g = gmetrics m;
          up = now - startTime g;
          totalCacheRequests = cacheHits g + cacheMisses g
      in \<lparr> counted = g,
           uptime = up,
             successRate = (if g_totalRequests g > 0
                            then of_int (g_successfulRequests g) / of_int (g_totalRequests g) else 0),
             cacheHitRate = (if totalCacheRequests > 0
                             then of_int (cacheHits g) / of_int totalCacheRequests else 0),
           requestsPerMinute = requests_per_minute (g_totalRequests g) up \<rparr>)"

section \<open>The statistics of the cache, the sources and the manager\<close>

text \<open>\<open>CacheService.getStats()\<close>.\<close>

record CacheStats =
  counters :: cache_stats
  hitRate :: jsnum
  currentSize :: int
  stats_maxSize :: int

definition cache_getStats :: "CacheService \<Rightarrow> CacheStats" where
  "cache_getStats c =
     (let h = stat_hits (stats c); reads = stat_hits (stats c) + stat_misses (stats c)
      in \<lparr> counters = stats c,
           hitRate = (if reads = 0 then (if h = 0 then Finite 0 else Infinity)
                        else Finite (of_int h / of_int reads)),
             currentSize = int (length (cache c)),
             stats_maxSize = maxSize c \<rparr>)"

text \<open>
  \<open>getCircuitBreakerState()\<close> and \<open>getMetrics()\<close> of the sources. Kitsu and TMDB add the
  circuit-breaker state, a summary of the rate limiter and of the configuration to the base
  metrics (the constant URLs and the echo of \<open>config.rateLimit\<close> are left out); Nautiljon
  returns the base metrics.
\<close>

record CircuitBreakerState =
  cb_state :: circuit
  cb_consecutiveFailures :: int
  cb_failureThreshold :: int
  cb_nextAttemptTime :: int
  timeUntilNextAttempt :: int
  cb_isTemporarilyDisabled :: bool
  cb_disableDuration :: int

definition getCircuitBreakerState :: "int \<Rightarrow> PosterSource \<Rightarrow> CircuitBreakerState" where
  "getCircuitBreakerState now s =
     \<lparr> cb_state = circuitState s,
       cb_consecutiveFailures = consecutiveFailures (metrics s),
       cb_failureThreshold = failureThreshold s,
       cb_nextAttemptTime = nextAttemptTime s,
       timeUntilNextAttempt = max 0 (nextAttemptTime s - now),
       cb_isTemporarilyDisabled = isTemporarilyDisabled (metrics s),
       cb_disableDuration = disableDuration s \<rparr>"

datatype rateLimit_stats =
    IntervalLimit jsnum int
  | WindowLimit int int int "int list"

record source_extras =
  circuitBreaker :: CircuitBreakerState
  rateLimit :: rateLimit_stats
  conf_timeout :: int
  conf_hasApiKey :: "bool option"

record SourceStats =
  base_metrics :: SourceMetrics
  extras :: "source_extras option"
  stat_priority :: int
  stat_enabled :: bool
  stat_available :: bool

definition getMetrics :: "int \<Rightarrow> PosterSource \<Rightarrow> SourceMetrics \<times> source_extras option" where
  "getMetrics now s =
     (case kind s of
        Nautiljon \<Rightarrow> (metrics s, None)
      | Kitsu \<Rightarrow>
          (metrics s,
           Some \<lparr> circuitBreaker = getCircuitBreakerState now s,
                  rateLimit = IntervalLimit (minRequestInterval s) (lastRequestTime s),
                  conf_timeout = timeout s, conf_hasApiKey = None \<rparr>)
      | TMDB \<Rightarrow>
          (metrics s,
           Some \<lparr> circuitBreaker = getCircuitBreakerState now s,
                  rateLimit = WindowLimit (maxRequestsPer10Sec s) (rateLimitWindow s)
                                (int (length (requestTimes s))) (requestTimes s),
                  conf_timeout = timeout s, conf_hasApiKey = Some (truthy (apiKey s)) \<rparr>))"

text \<open>\<open>FallbackChain.getSourcesStats()\<close>.\<close>

definition source_stats :: "int \<Rightarrow> PosterSource \<Rightarrow> SourceStats" where
  "source_stats now s =
     \<lparr> base_metrics = fst (getMetrics now s), extras = snd (getMetrics now s),
       stat_priority = priority s, stat_enabled = isEnabled s, stat_available = isAvailable s \<rparr>"

definition getSourcesStats :: "int \<Rightarrow> FallbackChain \<Rightarrow> (string, SourceStats) jsmap" where
  "getSourcesStats now fc = map (\<lambda>(n, s). (n, source_stats now s)) (sources fc)"

section \<open>PosterManager\<close>

record PosterResult =
  res_url :: "string option"
  res_source :: string
  fromCache :: bool
  responseTime :: int

text \<open>
  \<open>_getPosterInternal\<close> is an async function. Called, it runs up to its first \<open>await\<close>: it
  calls \<open>this.cache.get(cacheKey)\<close>, whose body runs at once, and is suspended. A \<open>frame\<close> is
  that suspended call: its arguments and the entry (or \<open>null\<close>) that the \<open>await\<close> will
  deliver. The promise it returned is \<open>Running\<close> until the rest of the body has run, and
  \<open>Settled\<close> afterwards, with the value returned or the error thrown.
\<close>

record frame =
  fr_animeId :: string
  fr_animeName :: string
  fr_cacheKey :: string
  fr_startTime :: int
  fr_cached :: "PosterCacheEntry option"

datatype promise = Running frame | Settled "js_error + PosterResult"

text \<open>
  The manager. \<open>config_cacheTTL\<close>, \<open>config_cacheSize\<close> and \<open>config_sourcesCount\<close> are what the
  code reads of \<open>this.config\<close>. \<open>promises\<close> holds the promises made by \<open>_getPosterInternal\<close>,
  in the order of their creation; \<open>concurrentRequests\<close> maps a cache key to the index of its
  promise.
\<close>

record PosterManager =
  config_cacheTTL :: int
  config_cacheSize :: int
  config_sourcesCount :: nat
  pm_cache :: CacheService
  fallbackChain :: FallbackChain
  collector :: MetricsCollector
  isInitialized :: bool
  concurrentRequests :: "(string, nat) jsmap"
  promises :: "promise list"

record manager_config =
  mc_sources :: "(string, source_config) jsmap"
  mc_cache :: cache_config

text \<open>
  The constructor at time \<open>now\<close>. \<open>_mergeDefaultConfig\<close> spreads the given cache
  configuration over \<open>{ttl: 24 h, maxSize: 1000, persistToDisk: false}\<close>.
\<close>

definition PosterManager_new :: "int \<Rightarrow> manager_config \<Rightarrow> PosterManager" where
  "PosterManager_new now config =
     (let ttl' = spread (24 * 60 * 60 * 1000) (cfg_ttl (mc_cache config));
          size' = spread 1000 (cfg_maxSize (mc_cache config))
      in \<lparr> config_cacheTTL = ttl',
           config_cacheSize = size',
           config_sourcesCount = length (mc_sources config),
           pm_cache = CacheService_new ((mc_cache config)\<lparr>cfg_ttl := Some ttl', cfg_maxSize := Some size'\<rparr>),
           fallbackChain = \<lparr> sources = [] \<rparr>,
           collector = MetricsCollector_new now,
           isInitialized = False,
           concurrentRequests = [],
           promises = [] \<rparr>)"

text \<open>
  \<open>CacheService._loadFromDisk\<close>: \<open>disk\<close> is what reading and parsing the cache file gives, an
  error (no file, unreadable, not JSON) or the document. Every error is caught and logged.
\<close>

definition loadFromDisk :: "js_error + cacheData \<Rightarrow> int \<Rightarrow> CacheService \<Rightarrow> CacheService" where
  "loadFromDisk disk now c =
     (case disk of
        Inl error \<Rightarrow> c
      | Inr d \<Rightarrow>
          (let restored = fold (\<lambda>(k, entry) m. if \<not> isExpired entry now then map_set k entry m else m)
                            (entries d) (cache c)
           in c\<lparr>cache := restored,
                stats := (stats c)\<lparr>stat_sets := p_sets (data_stats d),
                                   stat_evictions := p_evictions (data_stats d),
                                   stat_size := int (length restored)\<rparr>\<rparr>))"

definition cache_initialize :: "js_error + cacheData \<Rightarrow> int \<Rightarrow> CacheService \<Rightarrow> CacheService" where
  "cache_initialize disk now c =
     (if cache_isInitialized c then c
      else (if persistToDisk c then loadFromDisk disk now c else c)\<lparr>cache_isInitialized := True\<rparr>)"

text \<open>
  \<open>PosterManager.initialize\<close>. Its \<open>try\<close> block holds \<open>cache.initialize()\<close>, whose failures
  are all caught inside \<open>_loadFromDisk\<close>, and \<open>validateSources()\<close>, which reads the two
  lists of names and logs; nothing in it throws.
\<close>

definition initialize :: "js_error + cacheData \<Rightarrow> int \<Rightarrow> PosterManager \<Rightarrow> PosterManager" where
  "initialize disk now pm =
     (if isInitialized pm then pm
      else pm\<lparr>pm_cache := cache_initialize disk now (pm_cache pm), isInitialized := True\<rparr>)"

definition cacheKey_of :: "string \<Rightarrow> string \<Rightarrow> string" where
  "cacheKey_of anime_id anime_name = anime_id @ '':'' @ anime_name"

text \<open>
  What a caller of \<open>getPoster\<close> holds while it is suspended: the promise it awaits, and, for
  the caller that made the promise, the key to delete in its \<open>finally\<close> block.
\<close>

record ticket =
  awaited :: nat
  owned_key :: "string option"

text \<open>
  \<open>getPoster\<close> on an initialized manager, from \<open>const cacheKey\<close> to the \<open>await\<close> where it is
  suspended, at time \<open>now\<close>.
\<close>

definition getPoster_call :: "int \<Rightarrow> string \<Rightarrow> string \<Rightarrow> PosterManager \<Rightarrow> ticket \<times> PosterManager" where
  "getPoster_call now anime_id anime_name pm =
     (let cacheKey = cacheKey_of anime_id anime_name; startTime = now in
      case map_of (concurrentRequests pm) cacheKey of
        Some p \<Rightarrow> (\<lparr> awaited = p, owned_key = None \<rparr>, pm)
      | None \<Rightarrow>
          (case get now cacheKey (pm_cache pm) of
             (cached, c') \<Rightarrow>
               (let p = length (promises pm);
                    fr = \<lparr> fr_animeId = anime_id, fr_animeName = anime_name,
                           fr_cacheKey = cacheKey, fr_startTime = startTime, fr_cached = cached \<rparr>
                in (\<lparr> awaited = p, owned_key = Some cacheKey \<rparr>,
                    pm\<lparr>pm_cache := c',
                       promises := promises pm @ [Running fr],
                       concurrentRequests := map_set cacheKey p (concurrentRequests pm)\<rparr>))))"

text \<open>
  What the outside world contributes to the rest of \<open>_getPosterInternal\<close>: the world of the
  chain walk, two readings of the clock, and the errors thrown into the \<open>try\<close> block by the
  three awaited calls, if any (an error of the chain is taken to be thrown before the walk
  has changed a source, one of \<open>cache.set\<close> before the entry is stored).
\<close>

record internal_world =
  chain_world :: "string \<Rightarrow> attempt"
  t_stored :: int
  t_returned :: int
  get_throws :: "js_error option"
  chain_throws :: "js_error option"
  set_throws :: "js_error option"

text \<open>The \<open>try\<close> block of \<open>_getPosterInternal\<close>, from the first \<open>await\<close> on.\<close>

definition try_block ::
  "internal_world \<Rightarrow> frame \<Rightarrow> PosterManager \<Rightarrow> (js_error + PosterResult) \<times> PosterManager" where
  "try_block w fr pm =
     (case get_throws w of
        Some error \<Rightarrow> (Inl error, pm)
      | None \<Rightarrow>
         (case fr_cached fr of
            Some cachedResult \<Rightarrow>
              (Inr \<lparr> res_url = Some (posterUrl cachedResult), res_source = source cachedResult,
                     fromCache = True, responseTime = t_returned w - fr_startTime fr \<rparr>,
               pm\<lparr>collector := recordCacheHit (collector pm)\<rparr>)
          | None \<Rightarrow>
              (let pm1 = pm\<lparr>collector := recordCacheMiss (collector pm)\<rparr> in
               case chain_throws w of
                 Some error \<Rightarrow> (Inl error, pm1)
               | None \<Rightarrow>
                  (case chain_fetchPoster (chain_world w) (fr_animeId fr) (fr_animeName fr)
                          (fallbackChain pm1) of
                     (fallbackResult, fc') \<Rightarrow>
                       (let pm2 = pm1\<lparr>fallbackChain := fc'\<rparr>;
                            result = \<lparr> res_url = url fallbackResult,
                                       res_source = result_source fallbackResult,
                                       fromCache = False,
                                       responseTime = t_returned w - fr_startTime fr \<rparr>
                        in case url fallbackResult of
                             None \<Rightarrow>
                               (Inr result,
                                pm2\<lparr>collector := g_recordFailure ''all_sources_failed'' None (collector pm2)\<rparr>)
                           | Some u \<Rightarrow>
                               if u = [] then
                                 (Inr result,
                                  pm2\<lparr>collector := g_recordFailure ''all_sources_failed'' None (collector pm2)\<rparr>)
                               else
                                 (case set_throws w of
                                    Some error \<Rightarrow> (Inl error, pm2)
                                  | None \<Rightarrow>
                                      (Inr result,
                                       pm2\<lparr>pm_cache :=
                                              set_entry (t_stored w) (fr_cacheKey fr)
                                                \<lparr> arg_animeId = fr_animeId fr, arg_posterUrl = u,
                                                  arg_source = result_source fallbackResult,
                                                  arg_timestamp = Some (t_stored w),
                                                  arg_ttl = Some (config_cacheTTL pm2),
                                                  arg_hits = Some 1 \<rparr>
                                                (pm_cache pm2),
                                           collector := g_recordSuccess (result_source fallbackResult) 0
                                                          (collector pm2)\<rparr>)))))))"

definition error_result :: "int \<Rightarrow> PosterResult" where
  "error_result elapsed = \<lparr> res_url = None, res_source = ''error'', fromCache = False,
                            responseTime = elapsed \<rparr>"

text \<open>The body with its \<open>catch\<close> block: how the promise settles, and the manager then.\<close>

definition getPosterInternal ::
  "internal_world \<Rightarrow> frame \<Rightarrow> PosterManager \<Rightarrow> (js_error + PosterResult) \<times> PosterManager" where
  "getPosterInternal w fr pm =
     (case try_block w fr pm of
        (Inr result, pm') \<Rightarrow> (Inr result, pm')
      | (Inl error, pm') \<Rightarrow>
          (Inr (error_result (t_returned w - fr_startTime fr)),
           pm'\<lparr>collector := recordError error (collector pm')\<rparr>))"

text \<open>The event loop runs the suspended \<open>_getPosterInternal\<close> of promise \<open>p\<close> to its end.\<close>

definition run_promise :: "internal_world \<Rightarrow> nat \<Rightarrow> PosterManager \<Rightarrow> PosterManager" where
  "run_promise w p pm =
     (if p < length (promises pm) then
        (case promises pm ! p of
           Running fr \<Rightarrow>
             (case getPosterInternal w fr pm of
                (outcome, pm') \<Rightarrow> pm'\<lparr>promises := (promises pm')[p := Settled outcome]\<rparr>)
         | Settled _ \<Rightarrow> pm)
      else pm)"

text \<open>
  A suspended caller is resumed: \<open>None\<close> while its promise is not settled; otherwise the
  value returned or the error raised to the caller, the owner of the promise deleting the
  key in its \<open>finally\<close> block either way.
\<close>

definition getPoster_return ::
  "ticket \<Rightarrow> PosterManager \<Rightarrow> (js_error + PosterResult) option \<times> PosterManager" where
  "getPoster_return t pm =
     (if awaited t < length (promises pm) then
        (case promises pm ! awaited t of
           Running _ \<Rightarrow> (None, pm)
         | Settled outcome \<Rightarrow>
             (Some outcome,
              case owned_key t of
                None \<Rightarrow> pm
              | Some k \<Rightarrow> pm\<lparr>concurrentRequests := map_delete k (concurrentRequests pm)\<rparr>))
      else (None, pm))"

text \<open>
  One call of \<open>getPoster\<close> with nothing else running in between: initialization if needed,
  the call, the awaited promise run to its end, the return.
\<close>

definition getPoster ::
  "js_error + cacheData \<Rightarrow> int \<Rightarrow> internal_world \<Rightarrow> string \<Rightarrow> string \<Rightarrow> PosterManager
     \<Rightarrow> (js_error + PosterResult) option \<times> PosterManager" where
  "getPoster disk now w anime_id anime_name pm =
     (case getPoster_call now anime_id anime_name (initialize disk now pm) of
        (t, pm1) \<Rightarrow> getPoster_return t (run_promise w (awaited t) pm1))"

text \<open>
  Calls of \<open>getPoster\<close> that overlap. JavaScript runs one piece of code at a time, and a call
  is interleaved with others only where it is suspended: at \<open>await this.initialize()\<close> when
  the manager is not initialized yet, and at the \<open>await\<close> of the promise. A \<open>caller\<close> is one
  call of \<open>getPoster\<close>: suspended in its initialization (with its two arguments, and whether
  its \<open>cache.initialize()\<close> is reading the cache file), suspended on a promise, or returned.
\<close>

datatype caller =
    Initializing string string bool
  | Suspended ticket
  | Returned "js_error + PosterResult"

text \<open>
  \<open>getPoster\<close> from its first line to its first \<open>await\<close>, at time \<open>now\<close>. On an initialized
  manager that is \<open>getPoster_call\<close>. Otherwise the caller calls \<open>initialize()\<close>, which passes
  its own test of \<open>isInitialized\<close> and calls \<open>cache.initialize()\<close>: a cache that is
  initialized returns at once, one that persists to disk starts reading its file
  (\<open>_loadFromDisk\<close> awaits \<open>fs.access\<close>), one that does not sets its flag at once. In each
  case the caller is suspended before the flag of the manager is set.
\<close>

definition getPoster_enter :: "int \<Rightarrow> string \<Rightarrow> string \<Rightarrow> PosterManager \<Rightarrow> caller \<times> PosterManager" where
  "getPoster_enter now anime_id anime_name pm =
     (if isInitialized pm then
        (case getPoster_call now anime_id anime_name pm of (t, pm') \<Rightarrow> (Suspended t, pm'))
      else
        (let c = pm_cache pm in
         if cache_isInitialized c then (Initializing anime_id anime_name False, pm)
         else if persistToDisk c then (Initializing anime_id anime_name True, pm)
         else (Initializing anime_id anime_name False,
               pm\<lparr>pm_cache := c\<lparr>cache_isInitialized := True\<rparr>\<rparr>)))"

text \<open>
  The end of the \<open>_loadFromDisk\<close> of one caller, and of the initialization that called it:
  \<open>disk\<close> is what this caller's reading of the cache file gave, \<open>t_load\<close> the clock when the
  entries are restored. The tests of the two flags were passed when the caller entered, so the
  entries are restored whatever has happened since.
\<close>

definition loaded :: "js_error + cacheData \<Rightarrow> int \<Rightarrow> PosterManager \<Rightarrow> PosterManager" where
  "loaded disk t_load pm =
     pm\<lparr>pm_cache := (loadFromDisk disk t_load (pm_cache pm))\<lparr>cache_isInitialized := True\<rparr>,
        isInitialized := True\<rparr>"

text \<open>
  The initialization that a caller awaits comes to its end and \<open>getPoster\<close> goes on, at time
  \<open>now\<close>, to the \<open>await\<close> of the promise. What lies between the end of the reading and the
  resumption of \<open>getPoster\<close> (the flag of the cache, \<open>validateSources()\<close>, the flag of the
  manager) takes nothing from outside and is taken in one piece.
\<close>

definition getPoster_initialized ::
  "js_error + cacheData \<Rightarrow> int \<Rightarrow> int \<Rightarrow> string \<Rightarrow> string \<Rightarrow> bool \<Rightarrow> PosterManager
     \<Rightarrow> ticket \<times> PosterManager" where
  "getPoster_initialized disk t_load now anime_id anime_name loading pm =
     getPoster_call now anime_id anime_name
       (if loading then loaded disk t_load pm else pm\<lparr>isInitialized := True\<rparr>)"

text \<open>
  What the event loop may do next: start a new call; end the initialization that caller \<open>k\<close>
  awaits; run the resolution that caller \<open>k\<close> awaits to its end; resume caller \<open>k\<close>, whose
  promise is settled. Callers are numbered in the order of their calls. An event that does
  not apply (no such caller, or a caller in another state) changes nothing.
\<close>

datatype event =
    Call int string string
  | Initialized nat "js_error + cacheData" int int
  | Resolve nat internal_world
  | Resume nat

fun loop_step :: "event \<Rightarrow> caller list \<times> PosterManager \<Rightarrow> caller list \<times> PosterManager" where
  "loop_step (Call now anime_id anime_name) (cs, pm) =
     (case getPoster_enter now anime_id anime_name pm of (c, pm') \<Rightarrow> (cs @ [c], pm'))"
| "loop_step (Initialized k disk t_load now) (cs, pm) =
     (if k < length cs then
        (case cs ! k of
           Initializing anime_id anime_name loading \<Rightarrow>
             (case getPoster_initialized disk t_load now anime_id anime_name loading pm of
                (t, pm') \<Rightarrow> (cs[k := Suspended t], pm'))
         | _ \<Rightarrow> (cs, pm))
      else (cs, pm))"
| "loop_step (Resolve k w) (cs, pm) =
     (if k < length cs then
        (case cs ! k of
           Suspended t \<Rightarrow> (cs, run_promise w (awaited t) pm)
         | _ \<Rightarrow> (cs, pm))
      else (cs, pm))"
| "loop_step (Resume k) (cs, pm) =
     (if k < length cs then
        (case cs ! k of
           Suspended t \<Rightarrow>
             (case getPoster_return t pm of
                (Some outcome, pm') \<Rightarrow> (cs[k := Returned outcome], pm')
              | (None, pm') \<Rightarrow> (cs, pm'))
         | _ \<Rightarrow> (cs, pm))
      else (cs, pm))"

text \<open>A run of events from a manager with no call under way: the callers and the manager then.\<close>

definition run_events :: "event list \<Rightarrow> PosterManager \<Rightarrow> caller list \<times> PosterManager" where
  "run_events es pm = fold loop_step es ([], pm)"

text \<open>\<open>PosterManager.getStats()\<close> at time \<open>now\<close>.\<close>

record config_stats =
  cacheSize :: int
  cacheTTL :: int
  sourcesCount :: nat

record ManagerStats =
  ms_cache :: CacheStats
  ms_sources :: "(string, SourceStats) jsmap"
  ms_global :: GlobalStats
  ms_config :: config_stats

definition manager_getStats :: "int \<Rightarrow> PosterManager \<Rightarrow> ManagerStats" where
  "manager_getStats now pm =
     \<lparr> ms_cache = cache_getStats (pm_cache pm),
       ms_sources = getSourcesStats now (fallbackChain pm),
       ms_global = getStats now (collector pm),
       ms_config = \<lparr> cacheSize = config_cacheSize pm, cacheTTL = config_cacheTTL pm,
                     sourcesCount = config_sourcesCount pm \<rparr> \<rparr>"

section \<open>Reading the statistics twice\<close>

text \<open>
  The statistics with the three numbers computed from the clock blanked: \<open>uptime\<close> and
  \<open>requestsPerMinute\<close> of the global statistics, \<open>timeUntilNextAttempt\<close> of each circuit
  breaker.
\<close>

definition blank_extras :: "source_extras \<Rightarrow> source_extras" where
  "blank_extras e = e\<lparr>circuitBreaker := (circuitBreaker e)\<lparr>timeUntilNextAttempt := 0\<rparr>\<rparr>"

definition blank_source :: "SourceStats \<Rightarrow> SourceStats" where
  "blank_source x = x\<lparr>extras := map_option blank_extras (extras x)\<rparr>"

definition without_clock :: "ManagerStats \<Rightarrow> ManagerStats" where
  "without_clock st =
     st\<lparr>ms_global := (ms_global st)\<lparr>uptime := 0, requestsPerMinute := Finite 0\<rparr>,
        ms_sources := map (\<lambda>(n, x). (n, blank_source x)) (ms_sources st)\<rparr>"

lemma blank_source_stats: "blank_source (source_stats t1 s) = blank_source (source_stats t2 s)"
  by (cases "kind s")
     (simp_all add: blank_source_def source_stats_def getMetrics_def blank_extras_def
        getCircuitBreakerState_def)

lemma blank_sources:
  "map (\<lambda>(n, x). (n, blank_source x)) (getSourcesStats t1 fc) =
   map (\<lambda>(n, x). (n, blank_source x)) (getSourcesStats t2 fc)"
  by (simp add: getSourcesStats_def split_def blank_source_stats[of t1 _ t2])

text \<open>
  C9, amended. Two readings of the manager's statistics taken at any two instants, with no
  operation in between, agree on everything but those three numbers; in particular the cache
  statistics, the counters of the collector and its two rates are the same, and \<open>uptime\<close>
  differs by the time elapsed between the readings.
\<close>

theorem stats_equal_up_to_clock:
  "without_clock (manager_getStats t1 pm) = without_clock (manager_getStats t2 pm)
   \<and> ms_cache (manager_getStats t1 pm) = ms_cache (manager_getStats t2 pm)
   \<and> counted (getStats t1 m) = counted (getStats t2 m)
   \<and> successRate (getStats t1 m) = successRate (getStats t2 m)
   \<and> cacheHitRate (getStats t1 m) = cacheHitRate (getStats t2 m)
   \<and> uptime (getStats t2 m) - uptime (getStats t1 m) = t2 - t1"
  using blank_sources[of t1 "fallbackChain pm" t2]
  by (simp add: without_clock_def manager_getStats_def getStats_def Let_def)

text \<open>
  C9 as stated fails: a collector created at time 0 and read at times 1000 and 2000, with
  nothing done in between, gives two different answers (\<open>uptime\<close> is 1000, then 2000).
\<close>

theorem stats_idempotence_counterexample:
  "getStats 1000 (MetricsCollector_new 0) \<noteq> getStats 2000 (MetricsCollector_new 0)"
proof
  assume "getStats 1000 (MetricsCollector_new 0) = getStats 2000 (MetricsCollector_new 0)"
  then have "uptime (getStats 1000 (MetricsCollector_new 0)) = uptime (getStats 2000 (MetricsCollector_new 0))"
    by simp
  then show False
    by (simp add: getStats_def MetricsCollector_new_def metrics_at_def Let_def)
qed

section \<open>Well-formed managers\<close>

text \<open>
  Every key in flight points to a promise that exists, and no promise has been rejected.
  The lemmas \<open>wf_*\<close> below show that the constructor establishes this and that every loop_step
  of the manager keeps it.
\<close>

fun not_rejected :: "promise \<Rightarrow> bool" where
  "not_rejected (Settled (Inl _)) = False"
| "not_rejected _ = True"

definition wf_manager :: "PosterManager \<Rightarrow> bool" where
  "wf_manager pm =
     (list_all (\<lambda>kp. snd kp < length (promises pm)) (concurrentRequests pm)
      \<and> list_all not_rejected (promises pm))"

lemma map_has_map_of: "map_has k m = (map_of m k \<noteq> None)"
  by (simp add: map_has_def map_of_eq_None_iff)

lemma list_all_map_set:
  "list_all P m \<Longrightarrow> P (k, v) \<Longrightarrow> list_all P (map_set k v m)"
  by (auto simp: map_set_def list_all_iff)

lemma list_all_map_delete: "list_all P m \<Longrightarrow> list_all P (map_delete k m)"
  by (simp add: map_delete_def list_all_iff)

lemma getPosterInternal_Inr: "\<exists>r pm'. getPosterInternal w fr pm = (Inr r, pm')"
  by (cases "try_block w fr pm"; cases "fst (try_block w fr pm)")
     (auto simp: getPosterInternal_def)

lemma try_block_keeps:
  "promises (snd (try_block w fr pm)) = promises pm"
  "concurrentRequests (snd (try_block w fr pm)) = concurrentRequests pm"
  "isInitialized (snd (try_block w fr pm)) = isInitialized pm"
  by (auto simp: try_block_def Let_def split: option.splits prod.splits)

lemma getPosterInternal_keeps:
  "promises (snd (getPosterInternal w fr pm)) = promises pm"
  "concurrentRequests (snd (getPosterInternal w fr pm)) = concurrentRequests pm"
  "isInitialized (snd (getPosterInternal w fr pm)) = isInitialized pm"
  using try_block_keeps[of w fr pm]
  by (auto simp: getPosterInternal_def split: prod.splits sum.splits)

lemma wf_new: "wf_manager (PosterManager_new now config)"
  by (simp add: wf_manager_def PosterManager_new_def Let_def)

lemma wf_initialize: "wf_manager pm \<Longrightarrow> wf_manager (initialize disk now pm)"
  by (simp add: wf_manager_def initialize_def)

lemma wf_call: "wf_manager pm \<Longrightarrow> wf_manager (snd (getPoster_call now i n pm))"
proof -
  assume wf: "wf_manager pm"
  show ?thesis
  proof (cases "map_of (concurrentRequests pm) (cacheKey_of i n)")
    case (Some p)
    then show ?thesis using wf by (simp add: getPoster_call_def Let_def)
  next
    case None
    have "list_all (\<lambda>kp. snd kp < Suc (length (promises pm))) (concurrentRequests pm)"
      using wf by (auto simp: wf_manager_def list_all_iff)
    then have "list_all (\<lambda>kp. snd kp < Suc (length (promises pm)))
                 (map_set (cacheKey_of i n) (length (promises pm)) (concurrentRequests pm))"
      by (rule list_all_map_set) simp
    then show ?thesis using wf None
      by (simp add: getPoster_call_def Let_def wf_manager_def split: prod.splits)
  qed
qed

lemma wf_run: "wf_manager pm \<Longrightarrow> wf_manager (run_promise w p pm)"
proof -
  assume wf: "wf_manager pm"
  show ?thesis
  proof (cases "p < length (promises pm)")
    case False
    then show ?thesis using wf by (simp add: run_promise_def)
  next
    case True
    show ?thesis
    proof (cases "promises pm ! p")
      case (Settled x)
      then show ?thesis using wf True by (simp add: run_promise_def)
    next
      case (Running fr)
      obtain r pm' where g: "getPosterInternal w fr pm = (Inr r, pm')"
        using getPosterInternal_Inr by blast
      have k: "promises pm' = promises pm" "concurrentRequests pm' = concurrentRequests pm"
        using getPosterInternal_keeps[of w fr pm] g by simp_all
      have "list_all not_rejected ((promises pm)[p := Settled (Inr r)])"
        using wf by (auto simp: wf_manager_def list_all_iff dest!: set_update_subset_insert[THEN subsetD])
      then show ?thesis using wf True Running g k
        by (simp add: run_promise_def wf_manager_def)
    qed
  qed
qed

lemma wf_return: "wf_manager pm \<Longrightarrow> wf_manager (snd (getPoster_return t pm))"
  by (auto simp: getPoster_return_def wf_manager_def list_all_map_delete
           split: promise.splits option.splits)


section \<open>getPoster returns a result\<close>

lemma call_awaited:
  assumes "wf_manager pm"
  shows "awaited (fst (getPoster_call now i n pm)) < length (promises (snd (getPoster_call now i n pm)))"
proof (cases "map_of (concurrentRequests pm) (cacheKey_of i n)")
  case None
  then show ?thesis by (simp add: getPoster_call_def Let_def split: prod.splits)
next
  case (Some p)
  then have "(cacheKey_of i n, p) \<in> set (concurrentRequests pm)" by (rule map_of_SomeD)
  then have "p < length (promises pm)" using assms by (auto simp: wf_manager_def list_all_iff)
  then show ?thesis using Some by (simp add: getPoster_call_def Let_def)
qed

lemma run_promise_settles:
  assumes "wf_manager pm" and "p < length (promises pm)"
  shows "\<exists>r. promises (run_promise w p pm) ! p = Settled (Inr r)"
proof (cases "promises pm ! p")
  case (Settled x)
  have "not_rejected (promises pm ! p)"
    using assms by (simp add: wf_manager_def list_all_length)
  then obtain r where "x = Inr r" using Settled by (cases x) simp_all
  then show ?thesis using Settled assms(2) by (simp add: run_promise_def)
next
  case (Running fr)
  obtain r pm' where g: "getPosterInternal w fr pm = (Inr r, pm')"
    using getPosterInternal_Inr by blast
  have "promises pm' = promises pm" using getPosterInternal_keeps(1)[of w fr pm] g by simp
  then show ?thesis using Running assms(2) g by (simp add: run_promise_def)
qed

lemma run_promise_length: "length (promises (run_promise w p pm)) = length (promises pm)"
proof (cases "p < length (promises pm)")
  case False
  then show ?thesis by (simp add: run_promise_def)
next
  case True
  show ?thesis
  proof (cases "promises pm ! p")
    case (Settled x)
    then show ?thesis using True by (simp add: run_promise_def)
  next
    case (Running fr)
    obtain x pm' where g: "getPosterInternal w fr pm = (x, pm')" by (cases "getPosterInternal w fr pm")
    have "promises pm' = promises pm" using getPosterInternal_keeps(1)[of w fr pm] g by simp
    then show ?thesis using True Running g by (simp add: run_promise_def)
  qed
qed

lemma return_settled:
  assumes "awaited t < length (promises pm)" and "promises pm ! awaited t = Settled x"
  shows "fst (getPoster_return t pm) = Some x"
  using assms by (simp add: getPoster_return_def)

lemma getPoster_returns:
  assumes "wf_manager pm"
  shows "\<exists>r. fst (getPoster disk now w i n pm) = Some (Inr r)"
proof -
  let ?pm0 = "initialize disk now pm"
  obtain t pm1 where c: "getPoster_call now i n ?pm0 = (t, pm1)" by (cases "getPoster_call now i n ?pm0")
  have wf0: "wf_manager ?pm0" using assms by (rule wf_initialize)
  have wf1: "wf_manager pm1" using wf_call[OF wf0, of now i n] c by simp
  have a: "awaited t < length (promises pm1)" using call_awaited[OF wf0, of now i n] c by simp
  obtain r where s: "promises (run_promise w (awaited t) pm1) ! awaited t = Settled (Inr r)"
    using run_promise_settles[OF wf1 a] by blast
  have "awaited t < length (promises (run_promise w (awaited t) pm1))"
    using a by (simp add: run_promise_length)
  from return_settled[OF this s] show ?thesis using c by (simp add: getPoster_def)
qed


lemma try_block_get_throws:
  "get_throws w = Some e \<Longrightarrow> try_block w fr pm = (Inl e, pm)"
  by (simp add: try_block_def)

lemma try_block_chain_throws:
  "get_throws w = None \<Longrightarrow> fr_cached fr = None \<Longrightarrow> chain_throws w = Some e
     \<Longrightarrow> try_block w fr pm = (Inl e, pm\<lparr>collector := recordCacheMiss (collector pm)\<rparr>)"
  by (simp add: try_block_def Let_def)

lemma getPosterInternal_catch:
  "try_block w fr pm = (Inl e, pm')
     \<Longrightarrow> getPosterInternal w fr pm =
           (Inr (error_result (t_returned w - fr_startTime fr)),
            pm'\<lparr>collector := recordError e (collector pm')\<rparr>)"
  by (simp add: getPosterInternal_def)

definition error_type :: "js_error \<Rightarrow> string" where
  "error_type e = (if err_name e = [] then ''UnknownError'' else err_name e)"

text \<open>The number of errors counted under a name that is not inherited: \<open>errorTypes[ty] || 0\<close>.\<close>

definition error_count :: "string \<Rightarrow> MetricsCollector \<Rightarrow> jsnum" where
  "error_count ty m =
     (case map_of (errorTypes (gmetrics m)) ty of
        None \<Rightarrow> Finite 0
      | Some v \<Rightarrow> if js_falsy v then Finite 0 else v)"

lemma count_errorType_own:
  assumes "ty \<notin> set inherited_names"
  shows "map_of (count_errorType ty errs) ty =
           Some (js_incr (case map_of errs ty of
                            None \<Rightarrow> Finite 0
                          | Some v \<Rightarrow> if js_falsy v then Finite 0 else v))"
  using assms
  by (cases "map_of errs ty") (simp_all add: count_errorType_def map_of_map_set_same js_incr_def)

lemma js_incr_falsy: "js_falsy (js_incr v) \<Longrightarrow> js_incr v = Finite 0 \<or> v = NaN"
  by (cases v) (simp_all add: js_incr_def js_falsy_def)

lemma recordError_counts:
  "g_failedRequests (gmetrics (recordError e m)) = g_failedRequests (gmetrics m) + 1"
  "g_totalRequests (gmetrics (recordError e m)) = g_totalRequests (gmetrics m) + 1"
  "cacheMisses (gmetrics (recordError e m)) = cacheMisses (gmetrics m)"
  by (simp_all add: recordError_def g_recordFailure_def Let_def)

lemma recordError_error_count:
  assumes "error_type e \<notin> set inherited_names"
  shows "error_count (error_type e) (recordError e m) = js_incr (error_count (error_type e) m)"
proof -
  let ?base = "case map_of (errorTypes (gmetrics m)) (error_type e) of
                 None \<Rightarrow> Finite 0
               | Some v \<Rightarrow> if js_falsy v then Finite 0 else v"
  have b: "?base \<noteq> NaN"
    by (cases "map_of (errorTypes (gmetrics m)) (error_type e)") (auto simp: js_falsy_def)
  have own: "map_of (errorTypes (gmetrics (recordError e m))) (error_type e) = Some (js_incr ?base)"
    using count_errorType_own[OF assms, of "errorTypes (gmetrics m)"]
    by (simp add: recordError_def g_recordFailure_def Let_def error_type_def)
  have "error_count (error_type e) (recordError e m) =
          (if js_falsy (js_incr ?base) then Finite 0 else js_incr ?base)"
    by (simp add: error_count_def own)
  also have "\<dots> = js_incr ?base" using js_incr_falsy[of ?base] b by auto
  finally show ?thesis by (simp add: error_count_def)
qed

lemma recordCacheMiss_counts:
  "g_failedRequests (gmetrics (recordCacheMiss m)) = g_failedRequests (gmetrics m)"
  "g_totalRequests (gmetrics (recordCacheMiss m)) = g_totalRequests (gmetrics m)"
  "error_count ty (recordCacheMiss m) = error_count ty m"
  "cacheMisses (gmetrics (recordCacheMiss m)) = cacheMisses (gmetrics m) + 1"
  by (simp_all add: recordCacheMiss_def error_count_def)




text \<open>
  The first error thrown into the \<open>try\<close> block of \<open>_getPosterInternal\<close> by one of its three
  awaited calls, given the entry read from the cache and the answer of the chain: the error
  of \<open>cache.get\<close>; or, on a cache miss, the one of the chain; or, when the chain has found a
  URL, the one of \<open>cache.set\<close>. \<open>None\<close>: no error reaches the \<open>catch\<close> block.
\<close>

definition throws_into_try ::
  "internal_world \<Rightarrow> PosterCacheEntry option \<Rightarrow> FallbackResult \<Rightarrow> js_error option" where
  "throws_into_try w cached fallbackResult =
     (case get_throws w of
        Some e \<Rightarrow> Some e
      | None \<Rightarrow>
          (case cached of
             Some _ \<Rightarrow> None
           | None \<Rightarrow>
               (case chain_throws w of
                  Some e \<Rightarrow> Some e
                | None \<Rightarrow> if truthy (url fallbackResult) then set_throws w else None)))"

text \<open>The frame and the manager that a call with no request in flight for its key leaves.\<close>

definition new_frame :: "int \<Rightarrow> string \<Rightarrow> string \<Rightarrow> PosterManager \<Rightarrow> frame" where
  "new_frame now i n pm =
     \<lparr> fr_animeId = i, fr_animeName = n, fr_cacheKey = cacheKey_of i n, fr_startTime = now,
       fr_cached = fst (get now (cacheKey_of i n) (pm_cache pm)) \<rparr>"

definition after_call :: "int \<Rightarrow> string \<Rightarrow> string \<Rightarrow> PosterManager \<Rightarrow> PosterManager" where
  "after_call now i n pm =
     pm\<lparr>pm_cache := snd (get now (cacheKey_of i n) (pm_cache pm)),
        promises := promises pm @ [Running (new_frame now i n pm)],
        concurrentRequests := map_set (cacheKey_of i n) (length (promises pm)) (concurrentRequests pm)\<rparr>"

lemma fresh_call:
  assumes "map_of (concurrentRequests pm) (cacheKey_of i n) = None"
  shows "getPoster_call now i n pm =
           (\<lparr> awaited = length (promises pm), owned_key = Some (cacheKey_of i n) \<rparr>,
            after_call now i n pm)"
  using assms
  by (simp add: getPoster_call_def Let_def after_call_def new_frame_def split: prod.splits)


lemma after_call_fields:
  "collector (after_call now i n pm) = collector pm"
  "fallbackChain (after_call now i n pm) = fallbackChain pm"
  "isInitialized (after_call now i n pm) = isInitialized pm"
  "promises (after_call now i n pm) ! length (promises pm) = Running (new_frame now i n pm)"
  "length (promises pm) < length (promises (after_call now i n pm))"
  "map_of (concurrentRequests (after_call now i n pm)) (cacheKey_of i n) = Some (length (promises pm))"
  "length (promises (after_call now i n pm)) = Suc (length (promises pm))"
  by (simp_all add: after_call_def map_of_map_set_same)

text \<open>The manager once the promise of that call has been run.\<close>

definition after_run :: "internal_world \<Rightarrow> int \<Rightarrow> string \<Rightarrow> string \<Rightarrow> PosterManager \<Rightarrow> PosterManager" where
  "after_run w now i n pm = run_promise w (length (promises pm)) (after_call now i n pm)"

lemma after_run_eq:
  "after_run w now i n pm =
     (snd (getPosterInternal w (new_frame now i n pm) (after_call now i n pm)))
       \<lparr>promises := (promises (after_call now i n pm))
                      [length (promises pm) := Settled (fst (getPosterInternal w (new_frame now i n pm) (after_call now i n pm)))]\<rparr>"
proof -
  obtain x pm' where g: "getPosterInternal w (new_frame now i n pm) (after_call now i n pm) = (x, pm')"
    by (cases "getPosterInternal w (new_frame now i n pm) (after_call now i n pm)")
  have "promises pm' = promises (after_call now i n pm)"
    using getPosterInternal_keeps(1)[of w "new_frame now i n pm" "after_call now i n pm"] g by simp
  then show ?thesis
    using g by (simp add: after_run_def run_promise_def after_call_fields(4,5))
qed

lemma after_run_fields:
  "promises (after_run w now i n pm) ! length (promises pm) =
     Settled (fst (getPosterInternal w (new_frame now i n pm) (after_call now i n pm)))"
  "length (promises pm) < length (promises (after_run w now i n pm))"
  "collector (after_run w now i n pm) =
     collector (snd (getPosterInternal w (new_frame now i n pm) (after_call now i n pm)))"
  "map_of (concurrentRequests (after_run w now i n pm)) (cacheKey_of i n) = Some (length (promises pm))"
  "pm_cache (after_run w now i n pm) =
     pm_cache (snd (getPosterInternal w (new_frame now i n pm) (after_call now i n pm)))"
  using getPosterInternal_keeps(2)[of w "new_frame now i n pm" "after_call now i n pm"]
        after_call_fields(6)[of now i n pm]
  by (simp_all add: after_run_eq after_call_fields(4,5))

lemma getPoster_fresh:
  assumes "map_of (concurrentRequests (initialize disk now pm)) (cacheKey_of i n) = None"
  shows "fst (getPoster disk now w i n pm) =
           Some (fst (getPosterInternal w (new_frame now i n (initialize disk now pm))
                        (after_call now i n (initialize disk now pm))))
       \<and> collector (snd (getPoster disk now w i n pm)) =
           collector (snd (getPosterInternal w (new_frame now i n (initialize disk now pm))
                        (after_call now i n (initialize disk now pm))))"
  using after_run_fields(1,2,3)[where w = w and now = now and i = i and n = n
          and pm = "initialize disk now pm"]
  by (simp add: getPoster_def fresh_call[OF assms] getPoster_return_def after_run_def)

lemma initialize_fields:
  "concurrentRequests (initialize disk now pm) = concurrentRequests pm"
  "collector (initialize disk now pm) = collector pm"
  "promises (initialize disk now pm) = promises pm"
  "fallbackChain (initialize disk now pm) = fallbackChain pm"
  by (simp_all add: initialize_def)

lemma try_block_set_throws:
  assumes "get_throws w = None" and "fr_cached fr = None" and "chain_throws w = None"
      and "truthy (url (fst (chain_fetchPoster (chain_world w) (fr_animeId fr) (fr_animeName fr)
                                (fallbackChain pm))))"
      and "set_throws w = Some e"
  shows "\<exists>fc. try_block w fr pm =
           (Inl e, pm\<lparr>collector := recordCacheMiss (collector pm), fallbackChain := fc\<rparr>)"
  using assms
  by (cases "chain_fetchPoster (chain_world w) (fr_animeId fr) (fr_animeName fr) (fallbackChain pm)")
     (auto simp: try_block_def Let_def truthy_def split: option.splits)

lemma thrown_caught:
  assumes "throws_into_try w (fr_cached fr)
             (fst (chain_fetchPoster (chain_world w) (fr_animeId fr) (fr_animeName fr)
                     (fallbackChain pm))) = Some e"
  shows "fst (getPosterInternal w fr pm) = Inr (error_result (t_returned w - fr_startTime fr))
       \<and> g_failedRequests (gmetrics (collector (snd (getPosterInternal w fr pm))))
           = g_failedRequests (gmetrics (collector pm)) + 1
       \<and> g_totalRequests (gmetrics (collector (snd (getPosterInternal w fr pm))))
           = g_totalRequests (gmetrics (collector pm)) + 1
       \<and> (error_type e \<notin> set inherited_names \<longrightarrow>
            error_count (error_type e) (collector (snd (getPosterInternal w fr pm)))
              = js_incr (error_count (error_type e) (collector pm)))"
proof (cases "get_throws w")
  case (Some e')
  then have "e' = e" using assms by (simp add: throws_into_try_def)
  then have "try_block w fr pm = (Inl e, pm)" using Some by (simp add: try_block_get_throws)
  from getPosterInternal_catch[OF this] show ?thesis
    by (simp add: recordError_counts recordError_error_count)
next
  case None
  then have miss: "fr_cached fr = None"
    using assms by (auto simp: throws_into_try_def split: option.splits)
  show ?thesis
  proof (cases "chain_throws w")
    case (Some e')
    then have "chain_throws w = Some e"
      using assms None miss by (simp add: throws_into_try_def)
    from try_block_chain_throws[OF None miss this] getPosterInternal_catch
    have "getPosterInternal w fr pm =
            (Inr (error_result (t_returned w - fr_startTime fr)),
             pm\<lparr>collector := recordError e (recordCacheMiss (collector pm))\<rparr>)"
      by fastforce
    then show ?thesis
      by (simp add: recordError_counts recordError_error_count recordCacheMiss_counts)
  next
    case quiet: None
    have found: "truthy (url (fst (chain_fetchPoster (chain_world w) (fr_animeId fr) (fr_animeName fr)
                                     (fallbackChain pm))))"
      and thrown: "set_throws w = Some e"
      using assms None miss quiet by (auto simp: throws_into_try_def split: if_splits)
    obtain fc where "try_block w fr pm =
        (Inl e, pm\<lparr>collector := recordCacheMiss (collector pm), fallbackChain := fc\<rparr>)"
      using try_block_set_throws[OF None miss quiet found thrown] by blast
    from getPosterInternal_catch[OF this]
    show ?thesis
      by (simp add: recordError_counts recordError_error_count recordCacheMiss_counts)
  qed
qed

text \<open>
  C2. On a well-formed manager, \<open>getPoster\<close> returns a result and raises nothing, whatever
  its arguments, the time, the state of the disk, the answers of the sources and the errors
  thrown inside. And when the call starts its own resolution and one of the three awaited
  calls in the \<open>try\<close> block of \<open>_getPosterInternal\<close> throws (\<open>cache.get\<close>, the chain, or
  \<open>cache.set\<close> once the chain has found a URL), the result has no URL, the source \<open>error\<close>
  and \<open>fromCache = false\<close>, and the collector has one more request, one more failed request
  and, unless the error's name is one that objects inherit, one more error under that name.
\<close>

theorem getPoster_never_raises:
  assumes "wf_manager pm"
  shows "(\<exists>r. fst (getPoster disk now w anime_id anime_name pm) = Some (Inr r))
       \<and> (map_of (concurrentRequests pm) (cacheKey_of anime_id anime_name) = None
          \<and> throws_into_try w
               (fst (get now (cacheKey_of anime_id anime_name) (pm_cache (initialize disk now pm))))
               (fst (chain_fetchPoster (chain_world w) anime_id anime_name (fallbackChain pm)))
              = Some e
          \<longrightarrow> fst (getPoster disk now w anime_id anime_name pm)
                = Some (Inr \<lparr> res_url = None, res_source = ''error'', fromCache = False,
                               responseTime = t_returned w - now \<rparr>)
            \<and> g_failedRequests (gmetrics (collector (snd (getPoster disk now w anime_id anime_name pm))))
                = g_failedRequests (gmetrics (collector pm)) + 1
            \<and> g_totalRequests (gmetrics (collector (snd (getPoster disk now w anime_id anime_name pm))))
                = g_totalRequests (gmetrics (collector pm)) + 1
            \<and> (error_type e \<notin> set inherited_names \<longrightarrow>
                 error_count (error_type e) (collector (snd (getPoster disk now w anime_id anime_name pm)))
                   = js_incr (error_count (error_type e) (collector pm))))"
proof -
  let ?pm0 = "initialize disk now pm"
  let ?fr = "new_frame now anime_id anime_name ?pm0"
  let ?pm1 = "after_call now anime_id anime_name ?pm0"
  have A: "\<exists>r. fst (getPoster disk now w anime_id anime_name pm) = Some (Inr r)"
    using assms by (rule getPoster_returns)
  have B: "fst (getPoster disk now w anime_id anime_name pm)
                = Some (Inr \<lparr> res_url = None, res_source = ''error'', fromCache = False,
                               responseTime = t_returned w - now \<rparr>)
            \<and> g_failedRequests (gmetrics (collector (snd (getPoster disk now w anime_id anime_name pm))))
                = g_failedRequests (gmetrics (collector pm)) + 1
            \<and> g_totalRequests (gmetrics (collector (snd (getPoster disk now w anime_id anime_name pm))))
                = g_totalRequests (gmetrics (collector pm)) + 1
            \<and> (error_type e \<notin> set inherited_names \<longrightarrow>
                 error_count (error_type e) (collector (snd (getPoster disk now w anime_id anime_name pm)))
                   = js_incr (error_count (error_type e) (collector pm)))"
    if fresh: "map_of (concurrentRequests pm) (cacheKey_of anime_id anime_name) = None"
      and thrown: "throws_into_try w
               (fst (get now (cacheKey_of anime_id anime_name) (pm_cache (initialize disk now pm))))
               (fst (chain_fetchPoster (chain_world w) anime_id anime_name (fallbackChain pm)))
              = Some e"
  proof -
    have f0: "map_of (concurrentRequests ?pm0) (cacheKey_of anime_id anime_name) = None"
      using fresh by (simp add: initialize_fields)
    have fr: "fr_startTime ?fr = now" "fr_animeId ?fr = anime_id" "fr_animeName ?fr = anime_name"
      "fr_cached ?fr = fst (get now (cacheKey_of anime_id anime_name) (pm_cache ?pm0))"
      by (simp_all add: new_frame_def)
    have fc: "fallbackChain ?pm1 = fallbackChain pm"
      by (simp add: after_call_fields initialize_fields)
    have t: "throws_into_try w (fr_cached ?fr)
               (fst (chain_fetchPoster (chain_world w) (fr_animeId ?fr) (fr_animeName ?fr)
                       (fallbackChain ?pm1))) = Some e"
      using thrown by (simp only: fr fc)
    show ?thesis
      using getPoster_fresh[OF f0, of w] thrown_caught[OF t]
      by (simp add: fr(1) error_result_def after_call_fields initialize_fields)
  qed
  from A B show ?thesis by blast
qed

text \<open>
  The example manager: the example cache configuration (which persists to disk), the
  example chain, no cache file on disk. In one run the chain walk throws a \<open>TypeError\<close>; in
  another the chain finds a poster and \<open>cache.set\<close> throws a \<open>RangeError\<close>.
\<close>

definition demo_manager :: PosterManager where
  "demo_manager =
     (PosterManager_new 0 \<lparr> mc_sources = [], mc_cache = demo_config \<rparr>)\<lparr>fallbackChain := demo_chain\<rparr>"

definition no_file :: "js_error + cacheData" where
  "no_file = Inl (JsError ''Error'' ''ENOENT: no such file or directory'')"

definition quiet_world :: internal_world where
  "quiet_world = \<lparr> chain_world = demo_world, t_stored = 5050, t_returned = 5060,
                    get_throws = None, chain_throws = None, set_throws = None \<rparr>"

definition type_error :: js_error where
  "type_error = JsError ''TypeError'' ''source.isAvailable is not a function''"

definition range_error :: js_error where
  "range_error = JsError ''RangeError'' ''Invalid time value''"

lemma demo_manager_wf: "wf_manager demo_manager"
  using wf_new[of 0 "\<lparr> mc_sources = [], mc_cache = demo_config \<rparr>"]
  by (simp add: demo_manager_def wf_manager_def)

lemma demo_manager_fresh: "map_of (concurrentRequests demo_manager) k = None"
  by (simp add: demo_manager_def PosterManager_new_def Let_def)

lemma demo_manager_cache: "cache (pm_cache (initialize no_file 1000 demo_manager)) = []"
  by (simp add: demo_manager_def PosterManager_new_def Let_def initialize_def cache_initialize_def
        loadFromDisk_def no_file_def CacheService_new_def)

lemma demo_manager_miss:
  "fst (get 1000 k (pm_cache (initialize no_file 1000 demo_manager))) = None"
  by (simp add: get_def demo_manager_cache)

lemma demo_manager_fields:
  "fallbackChain demo_manager = demo_chain"
  "g_failedRequests (gmetrics (collector demo_manager)) = 0"
  "g_totalRequests (gmetrics (collector demo_manager)) = 0"
  "error_count ty (collector demo_manager) = Finite 0"
  by (simp_all add: demo_manager_def PosterManager_new_def Let_def MetricsCollector_new_def
        metrics_at_def error_count_def)

lemma chain_fetchPoster_fst:
  "getOrderedSources fc \<noteq> [] \<Longrightarrow>
     fst (chain_fetchPoster world i n fc) = fst (walk world i n (getOrderedSources fc))"
  by (simp add: chain_fetchPoster_def Let_def split: prod.splits)

text \<open>The walk of the example chain: Kitsu finds nothing, TMDB finds a poster.\<close>

lemma demo_tmdb_fetch:
  "fst (fetchPoster (demo_world ''tmdb'') ''123'' ''X'' (TMDBSource_new None default_config))
     = Inr (Some ''https://image.tmdb.org/t/p/w500/p.jpg'')"
  by (simp add: fetchPoster_def TMDBSource_new_def canMakeRequest_def demo_world_def
        executeWithMetrics_def isAvailable_def metrics0_def default_config_def
        requestFn_def Let_def truthy_def)

lemma demo_chain_finds:
  "truthy (url (fst (chain_fetchPoster demo_world ''123'' ''X'' demo_chain)))"
proof -
  let ?k = "KitsuSource_new default_config" and ?t = "TMDBSource_new None default_config"
  have av: "isAvailable ?k" "isAvailable ?t" "name ?k = ''kitsu''" "name ?t = ''tmdb''"
    by (simp_all add: isAvailable_def KitsuSource_new_def TMDBSource_new_def default_config_def
          metrics0_def truthy_def Let_def)
  obtain k' where k: "fetchPoster (demo_world ''kitsu'') ''123'' ''X'' ?k = (Inr None, k')"
    using demo_kitsu_fetch by (cases "fetchPoster (demo_world ''kitsu'') ''123'' ''X'' ?k") simp
  obtain t' where t: "fetchPoster (demo_world ''tmdb'') ''123'' ''X'' ?t
                        = (Inr (Some ''https://image.tmdb.org/t/p/w500/p.jpg''), t')"
    using demo_tmdb_fetch by (cases "fetchPoster (demo_world ''tmdb'') ''123'' ''X'' ?t") simp
  have "url (fst (walk demo_world ''123'' ''X'' [?k, ?t])) = Some ''https://image.tmdb.org/t/p/w500/p.jpg''"
    by (simp add: av k t truthy_def)
  moreover have "getOrderedSources demo_chain = [?k, ?t]"
    using demo_chain_order by simp
  ultimately show ?thesis
    by (simp add: chain_fetchPoster_fst truthy_def)
qed

theorem getPoster_never_raises_witness:
  "((\<exists>r. fst (getPoster no_file 1000 (quiet_world\<lparr>chain_throws := Some type_error\<rparr>) ''123'' ''X'' demo_manager)
           = Some (Inr r))
    \<and> fst (getPoster no_file 1000 (quiet_world\<lparr>chain_throws := Some type_error\<rparr>) ''123'' ''X'' demo_manager)
        = Some (Inr \<lparr> res_url = None, res_source = ''error'', fromCache = False, responseTime = 4060 \<rparr>)
    \<and> g_failedRequests (gmetrics (collector (snd (getPoster no_file 1000
           (quiet_world\<lparr>chain_throws := Some type_error\<rparr>) ''123'' ''X'' demo_manager)))) = 1
    \<and> g_totalRequests (gmetrics (collector (snd (getPoster no_file 1000
           (quiet_world\<lparr>chain_throws := Some type_error\<rparr>) ''123'' ''X'' demo_manager)))) = 1
    \<and> error_count ''TypeError'' (collector (snd (getPoster no_file 1000
           (quiet_world\<lparr>chain_throws := Some type_error\<rparr>) ''123'' ''X'' demo_manager))) = Finite 1)
   \<and> (fst (getPoster no_file 1000 (quiet_world\<lparr>set_throws := Some range_error\<rparr>) ''123'' ''X'' demo_manager)
        = Some (Inr \<lparr> res_url = None, res_source = ''error'', fromCache = False, responseTime = 4060 \<rparr>)
      \<and> g_failedRequests (gmetrics (collector (snd (getPoster no_file 1000
           (quiet_world\<lparr>set_throws := Some range_error\<rparr>) ''123'' ''X'' demo_manager)))) = 1
      \<and> g_totalRequests (gmetrics (collector (snd (getPoster no_file 1000
           (quiet_world\<lparr>set_throws := Some range_error\<rparr>) ''123'' ''X'' demo_manager)))) = 1
      \<and> error_count ''RangeError'' (collector (snd (getPoster no_file 1000
           (quiet_world\<lparr>set_throws := Some range_error\<rparr>) ''123'' ''X'' demo_manager))) = Finite 1)"
proof -
  let ?w1 = "quiet_world\<lparr>chain_throws := Some type_error\<rparr>"
  let ?w2 = "quiet_world\<lparr>set_throws := Some range_error\<rparr>"
  have q: "chain_world ?w1 = demo_world" "chain_world ?w2 = demo_world"
    "get_throws ?w1 = None" "get_throws ?w2 = None" "chain_throws ?w2 = None"
    "t_returned ?w1 - 1000 = 4060" "t_returned ?w2 - 1000 = 4060"
    by (simp_all add: quiet_world_def)
  have t1: "throws_into_try ?w1
             (fst (get 1000 (cacheKey_of ''123'' ''X'') (pm_cache (initialize no_file 1000 demo_manager))))
             (fst (chain_fetchPoster (chain_world ?w1) ''123'' ''X'' (fallbackChain demo_manager)))
           = Some type_error"
    by (simp add: demo_manager_miss throws_into_try_def q)
  have t2: "throws_into_try ?w2
             (fst (get 1000 (cacheKey_of ''123'' ''X'') (pm_cache (initialize no_file 1000 demo_manager))))
             (fst (chain_fetchPoster (chain_world ?w2) ''123'' ''X'' (fallbackChain demo_manager)))
           = Some range_error"
    using demo_chain_finds
    by (simp add: demo_manager_miss throws_into_try_def q demo_manager_fields)
  have n: "error_type type_error = ''TypeError''" "error_type range_error = ''RangeError''"
    "''TypeError'' \<notin> set inherited_names" "''RangeError'' \<notin> set inherited_names"
    "js_incr (Finite 0) = Finite 1"
    by (simp_all add: error_type_def type_error_def range_error_def inherited_names_def js_incr_def)
  show ?thesis
    using getPoster_never_raises[OF demo_manager_wf, where disk = no_file and now = 1000
            and w = ?w1 and anime_id = "''123''" and anime_name = "''X''" and e = type_error]
          getPoster_never_raises[OF demo_manager_wf, where disk = no_file and now = 1000
            and w = ?w2 and anime_id = "''123''" and anime_name = "''X''" and e = range_error]
          demo_manager_fresh[of "cacheKey_of ''123'' ''X''"] t1 t2
    by (simp only: n q(6,7) demo_manager_fields) simp
qed


section \<open>Concurrent calls for one key\<close>






lemma enter_ready:
  assumes "isInitialized pm"
  shows "getPoster_enter now i n pm =
           (Suspended (fst (getPoster_call now i n pm)), snd (getPoster_call now i n pm))"
  using assms by (simp add: getPoster_enter_def split: prod.splits)









text \<open>
  One call of \<open>getPoster\<close> with nothing else in between, as a run of events: the call, the
  end of its initialization if it awaits one, its resolution, its return.
\<close>

lemma enter_then_initialized:
  assumes "\<not> isInitialized pm"
  shows "\<exists>loading pm1. getPoster_enter t i n pm = (Initializing i n loading, pm1)
           \<and> getPoster_initialized disk now now i n loading pm1 =
               getPoster_call now i n (initialize disk now pm)"
  using assms
  by (auto simp: getPoster_enter_def getPoster_initialized_def loaded_def initialize_def
        cache_initialize_def Let_def)

lemma getPoster_as_events:
  "run_events [Call now i n, Initialized 0 disk now now, Resolve 0 w, Resume 0] pm =
     (case getPoster disk now w i n pm of
        (Some outcome, pm') \<Rightarrow> ([Returned outcome], pm')
      | (None, pm') \<Rightarrow> ([Suspended (fst (getPoster_call now i n (initialize disk now pm)))], pm'))"
proof -
  obtain t pm1 where c: "getPoster_call now i n (initialize disk now pm) = (t, pm1)"
    by (cases "getPoster_call now i n (initialize disk now pm)")
  have two: "fold loop_step [Call now i n, Initialized 0 disk now now] ([], pm) = ([Suspended t], pm1)"
  proof (cases "isInitialized pm")
    case True
    then have "initialize disk now pm = pm" by (simp add: initialize_def)
    then show ?thesis using True c by (simp add: enter_ready)
  next
    case False
    from enter_then_initialized[OF False, of now i n disk now]
    obtain loading pm0 where "getPoster_enter now i n pm = (Initializing i n loading, pm0)"
      and "getPoster_initialized disk now now i n loading pm0 = (t, pm1)"
      using c by auto
    then show ?thesis by simp
  qed
  have "run_events [Call now i n, Initialized 0 disk now now, Resolve 0 w, Resume 0] pm =
          loop_step (Resume 0) (loop_step (Resolve 0 w) (fold loop_step [Call now i n, Initialized 0 disk now now] ([], pm)))"
    by (simp add: run_events_def)
  also have "\<dots> = (case getPoster_return t (run_promise w (awaited t) pm1) of
                      (Some outcome, pm') \<Rightarrow> ([Returned outcome], pm')
                    | (None, pm') \<Rightarrow> ([Suspended t], pm'))"
    unfolding two by (simp split: prod.splits option.splits)
  finally show ?thesis by (simp add: getPoster_def c split: prod.splits option.splits)
qed
























end
